theory Spec2Isabelle
  imports Main
begin

section \<open>Data model\<close>

text \<open>
  The orchestrator of \<^verbatim>\<open>src/4-agent-loop.ts\<close> keeps one conversation thread per Slack
  thread timestamp. A thread holds provider messages; a message has a role and a content
  that is either a plain string or an array of content blocks. The blocks the code
  inspects are \<^verbatim>\<open>text\<close>, \<^verbatim>\<open>tool_use\<close> (the tool call) and \<^verbatim>\<open>tool_result\<close>.

  The input of a tool call is JSON. Numbers are kept as integers here.
\<close>

type_synonym tid = string

datatype json =
    JNull
  | JBool bool
  | JNum int
  | JStr string
  | JArr "json list"
  | JObj "(string \<times> json) list"

text \<open>The provider hands the input of a tool call over as a JSON object.\<close>

type_synonym jobject = "(string \<times> json) list"

text \<open>\<^verbatim>\<open>input.key\<close>: the value stored under the key, \<open>None\<close> for \<^verbatim>\<open>undefined\<close>.\<close>

definition field :: "string \<Rightarrow> jobject \<Rightarrow> json option" where
  "field k inp = map_of inp k"

datatype role = User | Assistant

text \<open>
  \<open>ToolResult tool_use_id content is_error\<close>: the optional \<^verbatim>\<open>is_error\<close> key is
  \<open>None\<close> when the object literal does not set it.
\<close>

datatype block =
    Text string
  | ToolUse string string jobject
  | ToolResult string string "bool option"

datatype msg_content = Str string | Blocks "block list"

record message =
  role :: role
  content :: msg_content

record thread =
  threadTs :: tid
  channel :: string
  messages :: "message list"

text \<open>A thrown JavaScript error, with its \<^verbatim>\<open>message\<close>.\<close>

datatype error = Error string

fun message_of :: "error \<Rightarrow> string" where
  "message_of (Error m) = m"

section \<open>The runtime the code calls\<close>

text \<open>
  Everything outside the process (the provider, Slack, the file system the tools touch,
  child processes) is a world of type \<open>'w\<close>. Each call of the code into the runtime
  takes the world and returns an outcome and the next world, so calls made one after the
  other may depend on each other. A rejected promise or a thrown error is \<open>Inl\<close>.

  The error thrown by \<^verbatim>\<open>child_process.execSync\<close> is the result of
  \<^verbatim>\<open>spawnSync\<close> copied onto an \<^verbatim>\<open>Error\<close>: it has the properties
  \<^verbatim>\<open>stdout\<close> and \<^verbatim>\<open>stderr\<close> (\<open>None\<close> for \<^verbatim>\<open>undefined\<close>),
  \<^verbatim>\<open>status\<close> (the exit code, \<open>None\<close> when the process was killed),
  \<^verbatim>\<open>signal\<close>, \<^verbatim>\<open>code\<close> (\<^verbatim>\<open>ETIMEDOUT\<close> when the timeout ran out,
  \<^verbatim>\<open>ENOBUFS\<close> when the output outgrew the buffer) and \<^verbatim>\<open>message\<close>. It has
  no property \<^verbatim>\<open>killed\<close>: that one is set on the error of the asynchronous
  \<^verbatim>\<open>exec\<close> only. Reading \<^verbatim>\<open>e.killed\<close>, as \<^verbatim>\<open>execute_bash\<close> does,
  gives \<^verbatim>\<open>undefined\<close>, which is falsy.
\<close>

record exec_failure =
  e_stdout :: "string option"
  e_stderr :: "string option"
  e_status :: "int option"
  e_signal :: "string option"
  e_code :: "string option"
  e_message :: string

definition e_killed :: "exec_failure \<Rightarrow> bool" where
  "e_killed e = False"

record 'w runtime =
  messages_create :: "string \<Rightarrow> message list \<Rightarrow> 'w \<Rightarrow> (error + block list) \<times> 'w"
  chat_postMessage :: "string \<Rightarrow> tid \<Rightarrow> json option \<Rightarrow> 'w \<Rightarrow> (error + unit) \<times> 'w"
  fs_readFileSync :: "json option \<Rightarrow> 'w \<Rightarrow> (error + string) \<times> 'w"
  fs_writeFileSync :: "json option \<Rightarrow> json option \<Rightarrow> 'w \<Rightarrow> (error + unit) \<times> 'w"
  execSync :: "json option \<Rightarrow> nat \<Rightarrow> nat \<Rightarrow> 'w \<Rightarrow> (exec_failure + string) \<times> 'w"

section \<open>Built-in tools\<close>

definition newline :: string where
  "newline = [CHR 0x0A]"

text \<open>\<^verbatim>\<open>parts.join(sep)\<close>.\<close>

fun join :: "string \<Rightarrow> string list \<Rightarrow> string" where
  "join sep [] = []"
| "join sep [p] = p"
| "join sep (p # q # ps) = p @ sep @ join sep (q # ps)"

text \<open>The truthiness of a value that is a string or \<^verbatim>\<open>undefined\<close>.\<close>

fun truthy :: "string option \<Rightarrow> bool" where
  "truthy None = False"
| "truthy (Some s) = (s \<noteq> [])"

definition timeout_ms :: nat where
  "timeout_ms = 120000"

definition maxBuffer :: nat where
  "maxBuffer = 1024 * 1024"

text \<open>
  The \<^verbatim>\<open>catch\<close> branch of \<^verbatim>\<open>execute_bash\<close>: the three optional parts, the empty
  ones filtered out, joined by a newline; the error's message when no part is left.
\<close>

definition bash_parts :: "exec_failure \<Rightarrow> string list" where
  "bash_parts e =
     filter (\<lambda>p. p \<noteq> [])
       [if truthy (e_stdout e) then ''stdout:'' @ newline @ the (e_stdout e) else [],
        if truthy (e_stderr e) then ''stderr:'' @ newline @ the (e_stderr e) else [],
        if e_killed e then ''Error: command timed out'' else []]"

definition bash_failure :: "exec_failure \<Rightarrow> string" where
  "bash_failure e =
     (let parts = bash_parts e
      in if length parts > 0 then join newline parts else ''Error: '' @ e_message e)"

text \<open>\<^verbatim>\<open>output || "(no output)"\<close>.\<close>

definition bash_success :: "string \<Rightarrow> string" where
  "bash_success output = (if output = [] then ''(no output)'' else output)"

definition execute_bash :: "'w runtime \<Rightarrow> jobject \<Rightarrow> 'w \<Rightarrow> (error + string) \<times> 'w" where
  "execute_bash rt inp w =
     (case execSync rt (field ''command'' inp) timeout_ms maxBuffer w of
        (Inr output, w') \<Rightarrow> (Inr (bash_success output), w')
      | (Inl e, w') \<Rightarrow> (Inr (bash_failure e), w'))"

definition send_slack_message ::
  "'w runtime \<Rightarrow> string \<Rightarrow> tid \<Rightarrow> jobject \<Rightarrow> 'w \<Rightarrow> (error + string) \<times> 'w" where
  "send_slack_message rt ch ts inp w =
     (case chat_postMessage rt ch ts (field ''text'' inp) w of
        (Inr _, w') \<Rightarrow> (Inr ''Message sent.'', w')
      | (Inl e, w') \<Rightarrow> (Inl e, w'))"

definition read_file :: "'w runtime \<Rightarrow> jobject \<Rightarrow> 'w \<Rightarrow> (error + string) \<times> 'w" where
  "read_file rt inp w = fs_readFileSync rt (field ''path'' inp) w"

definition write_file :: "'w runtime \<Rightarrow> jobject \<Rightarrow> 'w \<Rightarrow> (error + string) \<times> 'w" where
  "write_file rt inp w =
     (case fs_writeFileSync rt (field ''path'' inp) (field ''content'' inp) w of
        (Inr _, w') \<Rightarrow> (Inr ''File written.'', w')
      | (Inl e, w') \<Rightarrow> (Inl e, w'))"

text \<open>
  The registry: the four tools with their names. The names differ, so looking a name up in
  the list finds the same tool as the \<^verbatim>\<open>Map\<close> built from the list.
\<close>

type_synonym 'w tool = "string \<times> (jobject \<Rightarrow> 'w \<Rightarrow> (error + string) \<times> 'w)"

definition createTools :: "'w runtime \<Rightarrow> string \<Rightarrow> tid \<Rightarrow> 'w tool list" where
  "createTools rt ch ts =
     [(''send_slack_message'', send_slack_message rt ch ts),
      (''read_file'', read_file rt),
      (''write_file'', write_file rt),
      (''execute_bash'', execute_bash rt)]"

section \<open>The generation round\<close>

text \<open>
  The body of the \<^verbatim>\<open>for\<close> loop of \<^verbatim>\<open>generateMessages\<close> for one
  \<^verbatim>\<open>tool_use\<close> block: the \<^verbatim>\<open>try\<close> looks the tool up by name, throws when there is
  none, runs it and records its result; the \<^verbatim>\<open>catch\<close> records the error's message
  with \<^verbatim>\<open>is_error: true\<close>. Every built-in tool returns a string, so the
  \<^verbatim>\<open>JSON.stringify(result)\<close> alternative is never taken.
\<close>

definition not_found :: "string \<Rightarrow> error" where
  "not_found name = Error (''tool '' @ [CHR 0x22] @ name @ [CHR 0x22] @ '' not found'')"

definition error_result :: "string \<Rightarrow> error \<Rightarrow> block" where
  "error_result i e = ToolResult i (''Error: '' @ message_of e) (Some True)"

definition call_tool ::
  "'w tool list \<Rightarrow> string \<Rightarrow> string \<Rightarrow> jobject \<Rightarrow> 'w \<Rightarrow> block \<times> 'w" where
  "call_tool tools i name inp w =
     (case map_of tools name of
        None \<Rightarrow> (error_result i (not_found name), w)
      | Some execute \<Rightarrow>
          (case execute inp w of
             (Inr result, w') \<Rightarrow> (ToolResult i result None, w')
           | (Inl e, w') \<Rightarrow> (error_result i e, w')))"

fun dispatch :: "'w tool list \<Rightarrow> block list \<Rightarrow> 'w \<Rightarrow> block list \<times> 'w" where
  "dispatch tools [] w = ([], w)"
| "dispatch tools (ToolUse i name inp # bs) w =
     (let (r, w1) = call_tool tools i name inp w;
          (rs, w2) = dispatch tools bs w1
      in (r # rs, w2))"
| "dispatch tools (b # bs) w = dispatch tools bs w"

definition generateMessages ::
  "'w runtime \<Rightarrow> string \<Rightarrow> tid \<Rightarrow> string \<Rightarrow> message list \<Rightarrow> 'w
     \<Rightarrow> (error + message list) \<times> 'w" where
  "generateMessages rt ch ts system msgs w =
     (case messages_create rt system msgs w of
        (Inl e, w1) \<Rightarrow> (Inl e, w1)
      | (Inr response, w1) \<Rightarrow>
          (let (toolResults, w2) = dispatch (createTools rt ch ts) response w1;
               msgs1 = msgs @ [\<lparr>role = Assistant, content = Blocks response\<rparr>];
               msgs2 = (if length toolResults > 0
                        then msgs1 @ [\<lparr>role = User, content = Blocks toolResults\<rparr>]
                        else msgs1)
           in (Inr msgs2, w2)))"

text \<open>The \<^verbatim>\<open>tool_use\<close> blocks of a response, by id, in the order of the response.\<close>

fun tool_use_ids :: "block list \<Rightarrow> string list" where
  "tool_use_ids [] = []"
| "tool_use_ids (ToolUse i name inp # bs) = i # tool_use_ids bs"
| "tool_use_ids (b # bs) = tool_use_ids bs"

text \<open>The \<^verbatim>\<open>tool_use_id\<close> a block answers, when it is a \<^verbatim>\<open>tool_result\<close>.\<close>

fun answers :: "block \<Rightarrow> string option" where
  "answers (ToolResult i c e) = Some i"
| "answers b = None"

section \<open>The thread store\<close>

text \<open>
  \<^verbatim>\<open>saveThread\<close> and \<^verbatim>\<open>loadThread\<close> keep one file per thread,
  \<^verbatim>\<open>~/.picobot/threads/<threadTs>.json\<close>, written with \<^verbatim>\<open>JSON.stringify\<close> and
  read back with \<^verbatim>\<open>JSON.parse\<close>. The two functions belong to the JavaScript
  runtime, not to the repository: they are parameters here, and \<open>json_codec\<close>
  further down is the runtime's pair. \<open>JSON_parse\<close> returns
  \<open>None\<close> where \<^verbatim>\<open>JSON.parse\<close> throws (or yields \<^verbatim>\<open>null\<close>, which
  \<^verbatim>\<open>??\<close> treats like \<^verbatim>\<open>undefined\<close>); a text that parses is taken to parse to a
  value of the declared type \<^verbatim>\<open>Thread\<close>.

  The state of the process and of its store: whether the directory exists, the text of
  each thread file (keyed by thread id: the file name is the id followed by
  \<^verbatim>\<open>.json\<close>), the two module-level collections \<^verbatim>\<open>pendingUserMessages\<close> and
  \<^verbatim>\<open>activeThreadLoops\<close>, the loops suspended in
  \<^verbatim>\<open>await generateMessages(...)\<close> (each with its \<^verbatim>\<open>threadTs\<close>, its
  \<^verbatim>\<open>channel\<close> and its local \<^verbatim>\<open>thread\<close>), and the world outside. The tools act
  on the world only; the thread files are not part of it.
\<close>

record codec =
  JSON_stringify :: "thread \<Rightarrow> string"
  JSON_parse :: "string \<Rightarrow> thread option"

record 'w sys =
  threadsDir :: bool
  files :: "tid \<rightharpoonup> string"
  pendingUserMessages :: "tid \<rightharpoonup> message list"
  activeThreadLoops :: "tid set"
  awaiting :: "(tid \<times> string \<times> thread) list"
  world :: 'w

text \<open>
  What the disk does to one \<^verbatim>\<open>saveThread\<close>: both calls succeed, or
  \<^verbatim>\<open>fs.mkdirSync\<close> throws, or \<^verbatim>\<open>fs.writeFileSync\<close> throws (the directory
  is there by then, and the file is taken to be left as it was).
\<close>

datatype disk = Written | MkdirThrows error | WriteThrows error

definition saveThread ::
  "codec \<Rightarrow> disk \<Rightarrow> tid \<Rightarrow> thread \<Rightarrow> 'w sys \<Rightarrow> (error + unit) \<times> 'w sys" where
  "saveThread cdc d ts t s =
     (case d of
        MkdirThrows e \<Rightarrow> (Inl e, s)
      | WriteThrows e \<Rightarrow> (Inl e, s\<lparr>threadsDir := True\<rparr>)
      | Written \<Rightarrow>
          (Inr (), s\<lparr>threadsDir := True, files := (files s)(ts \<mapsto> JSON_stringify cdc t)\<rparr>))"

definition loadThread :: "codec \<Rightarrow> 'w sys \<Rightarrow> tid \<Rightarrow> thread option" where
  "loadThread cdc s ts =
     (case files s ts of
        None \<Rightarrow> None
      | Some text \<Rightarrow> JSON_parse cdc text)"

section \<open>JSON text\<close>

text \<open>
  The text \<^verbatim>\<open>JSON.stringify(value, null, 2)\<close> writes for a value, and the value
  \<^verbatim>\<open>JSON.parse\<close> reads from a text. A string is a list of code units of one byte;
  a number is an integer, written in decimal. An object is the list of its members in the
  order of their keys, and reading keeps the members in the order of the text (the values
  the program holds have no key twice).

  Writing a string: the quote, the backslash and the control characters below 0x20 are
  escaped, the five named ones by their letter and the others as \<^verbatim>\<open>\u00XX\<close>;
  every other code unit is written as it is.
\<close>

definition is_ws :: "char \<Rightarrow> bool" where
  "is_ws c = (c = CHR 0x20 \<or> c = CHR 0x0A \<or> c = CHR 0x0D \<or> c = CHR 0x09)"

definition skip_ws :: "string \<Rightarrow> string" where
  "skip_ws cs = dropWhile is_ws cs"

definition hex :: "nat \<Rightarrow> char" where
  "hex d = ''0123456789abcdef'' ! d"

definition unhex :: "char \<Rightarrow> nat option" where
  "unhex c =
     (let n = of_char c :: nat
      in if 48 \<le> n \<and> n \<le> 57 then Some (n - 48)
         else if 97 \<le> n \<and> n \<le> 102 then Some (n - 87)
         else if 65 \<le> n \<and> n \<le> 70 then Some (n - 55)
         else None)"

definition escape_char :: "char \<Rightarrow> string" where
  "escape_char c =
     (if c = CHR 0x22 then [CHR 0x5C, CHR 0x22]
      else if c = CHR 0x5C then [CHR 0x5C, CHR 0x5C]
      else if c = CHR 0x08 then [CHR 0x5C, CHR ''b'']
      else if c = CHR 0x0C then [CHR 0x5C, CHR ''f'']
      else if c = CHR 0x0A then [CHR 0x5C, CHR ''n'']
      else if c = CHR 0x0D then [CHR 0x5C, CHR ''r'']
      else if c = CHR 0x09 then [CHR 0x5C, CHR ''t'']
      else if (of_char c :: nat) < 32
        then [CHR 0x5C, CHR ''u'', CHR ''0'', CHR ''0'',
              hex (of_char c div 16), hex (of_char c mod 16)]
      else [c])"

definition quote :: "string \<Rightarrow> string" where
  "quote s = CHR 0x22 # concat (map escape_char s) @ [CHR 0x22]"

definition unescape :: "char \<Rightarrow> char option" where
  "unescape e =
     (if e = CHR 0x22 then Some (CHR 0x22)
      else if e = CHR 0x5C then Some (CHR 0x5C)
      else if e = CHR ''/'' then Some (CHR ''/'')
      else if e = CHR ''b'' then Some (CHR 0x08)
      else if e = CHR ''f'' then Some (CHR 0x0C)
      else if e = CHR ''n'' then Some (CHR 0x0A)
      else if e = CHR ''r'' then Some (CHR 0x0D)
      else if e = CHR ''t'' then Some (CHR 0x09)
      else None)"

fun parse_chars :: "string \<Rightarrow> (string \<times> string) option" where
  "parse_chars [] = None"
| "parse_chars (c # cs) =
     (if c = CHR 0x22 then Some ([], cs)
      else if c = CHR 0x5C then
        (case cs of
           [] \<Rightarrow> None
         | e # cs1 \<Rightarrow>
             if e = CHR ''u'' then
               (case cs1 of
                  h1 # h2 # h3 # h4 # cs2 \<Rightarrow>
                    (case (unhex h1, unhex h2, unhex h3, unhex h4) of
                       (Some a, Some b, Some x, Some y) \<Rightarrow>
                         if a = 0 \<and> b = 0
                         then map_option (\<lambda>(s, r). (char_of (16 * x + y) # s, r)) (parse_chars cs2)
                         else None
                     | _ \<Rightarrow> None)
                | _ \<Rightarrow> None)
             else
               (case unescape e of
                  None \<Rightarrow> None
                | Some ch \<Rightarrow> map_option (\<lambda>(s, r). (ch # s, r)) (parse_chars cs1)))
      else if (of_char c :: nat) < 32 then None
      else map_option (\<lambda>(s, r). (c # s, r)) (parse_chars cs))"

text \<open>
  Numbers: an optional minus sign and decimal digits without a leading zero. A fraction or
  an exponent is not an integer and is not read.
\<close>

definition is_digit :: "char \<Rightarrow> bool" where
  "is_digit c = (48 \<le> (of_char c :: nat) \<and> (of_char c :: nat) \<le> 57)"

definition digit :: "nat \<Rightarrow> char" where
  "digit d = ''0123456789'' ! d"

definition digit_val :: "char \<Rightarrow> nat" where
  "digit_val c = of_char c - 48"

function digits :: "nat \<Rightarrow> string" where
  "digits n = (if n < 10 then [digit n] else digits (n div 10) @ [digit (n mod 10)])"
  by pat_completeness auto
termination
  by (relation "measure id") auto

declare digits.simps [simp del]

definition number_of :: "string \<Rightarrow> nat" where
  "number_of ds = foldl (\<lambda>a c. 10 * a + digit_val c) 0 ds"

definition show_int :: "int \<Rightarrow> string" where
  "show_int i = (if i < 0 then CHR ''-'' # digits (nat (- i)) else digits (nat i))"

definition parse_number :: "string \<Rightarrow> (json \<times> string) option" where
  "parse_number cs =
     (let neg = (cs \<noteq> [] \<and> hd cs = CHR ''-'');
          cs1 = (if neg then tl cs else cs);
          ds = takeWhile is_digit cs1;
          rest = dropWhile is_digit cs1
      in if ds = [] then None
         else if hd ds = CHR ''0'' \<and> 1 < length ds then None
         else if rest \<noteq> [] \<and> hd rest \<in> {CHR ''.'', CHR ''e'', CHR ''E''} then None
         else Some (JNum (if neg then - int (number_of ds) else int (number_of ds)), rest))"

text \<open>
  What may follow a value in a text: nothing, or a character that does not extend a
  number.
\<close>

definition ends_value :: "string \<Rightarrow> bool" where
  "ends_value rest =
     (rest = [] \<or>
      (\<not> is_digit (hd rest) \<and> hd rest \<noteq> CHR ''.'' \<and> hd rest \<noteq> CHR ''e'' \<and> hd rest \<noteq> CHR ''E''))"

text \<open>
  With the indentation of two spaces per level: an empty array is \<^verbatim>\<open>[]\<close> and an
  empty object \<^verbatim>\<open>{}\<close>; otherwise each item or member stands on a line of its own,
  indented one level deeper, the lines are separated by commas, and the closing bracket
  stands on a line of its own at the level of the value. A key is followed by a colon and
  one space.
\<close>

definition indent :: "nat \<Rightarrow> string" where
  "indent n = replicate (2 * n) (CHR 0x20)"

fun stringify :: "nat \<Rightarrow> json \<Rightarrow> string"
and stringify_items :: "nat \<Rightarrow> json list \<Rightarrow> string"
and stringify_members :: "nat \<Rightarrow> (string \<times> json) list \<Rightarrow> string"
where
  "stringify n JNull = ''null''"
| "stringify n (JBool b) = (if b then ''true'' else ''false'')"
| "stringify n (JNum i) = show_int i"
| "stringify n (JStr s) = quote s"
| "stringify n (JArr vs) =
     (if vs = [] then ''[]''
      else ''['' @ newline @ stringify_items (Suc n) vs @ newline @ indent n @ '']'')"
| "stringify n (JObj kvs) =
     (if kvs = [] then ''{}''
      else ''{'' @ newline @ stringify_members (Suc n) kvs @ newline @ indent n @ ''}'')"
| "stringify_items n [] = []"
| "stringify_items n (v # vs) =
     indent n @ stringify n v @
     (if vs = [] then [] else '','' @ newline @ stringify_items n vs)"
| "stringify_members n [] = []"
| "stringify_members n ((k, v) # kvs) =
     indent n @ quote k @ '': '' @ stringify n v @
     (if kvs = [] then [] else '','' @ newline @ stringify_members n kvs)"

text \<open>
  Reading skips white space before every token. The number counts down the nesting of the
  calls; \<open>parse\<close> starts with more than any text needs, and requires that only white
  space follows the value.
\<close>

fun parse_value :: "nat \<Rightarrow> string \<Rightarrow> (json \<times> string) option"
and parse_items :: "nat \<Rightarrow> string \<Rightarrow> (json list \<times> string) option"
and parse_members :: "nat \<Rightarrow> string \<Rightarrow> ((string \<times> json) list \<times> string) option"
where
  "parse_value 0 cs = None"
| "parse_value (Suc f) cs =
     (case skip_ws cs of
        [] \<Rightarrow> None
      | c # r \<Rightarrow>
          if c = CHR 0x22 then map_option (\<lambda>(s, r'). (JStr s, r')) (parse_chars r)
          else if c = CHR ''['' then
            (case skip_ws r of
               [] \<Rightarrow> None
             | c' # r' \<Rightarrow>
                 if c' = CHR '']'' then Some (JArr [], r')
                 else map_option (\<lambda>(vs, r''). (JArr vs, r'')) (parse_items f r))
          else if c = CHR ''{'' then
            (case skip_ws r of
               [] \<Rightarrow> None
             | c' # r' \<Rightarrow>
                 if c' = CHR ''}'' then Some (JObj [], r')
                 else map_option (\<lambda>(kvs, r''). (JObj kvs, r'')) (parse_members f r))
          else if c = CHR ''t'' then
            (if take 3 r = ''rue'' then Some (JBool True, drop 3 r) else None)
          else if c = CHR ''f'' then
            (if take 4 r = ''alse'' then Some (JBool False, drop 4 r) else None)
          else if c = CHR ''n'' then
            (if take 3 r = ''ull'' then Some (JNull, drop 3 r) else None)
          else parse_number (c # r))"
| "parse_items 0 cs = None"
| "parse_items (Suc f) cs =
     (case parse_value f cs of
        None \<Rightarrow> None
      | Some (v, r) \<Rightarrow>
          (case skip_ws r of
             [] \<Rightarrow> None
           | c # r' \<Rightarrow>
               if c = CHR '','' then map_option (\<lambda>(vs, r''). (v # vs, r'')) (parse_items f r')
               else if c = CHR '']'' then Some ([v], r')
               else None))"
| "parse_members 0 cs = None"
| "parse_members (Suc f) cs =
     (case skip_ws cs of
        [] \<Rightarrow> None
      | q # r \<Rightarrow>
          if q \<noteq> CHR 0x22 then None
          else
            (case parse_chars r of
               None \<Rightarrow> None
             | Some (k, r1) \<Rightarrow>
                 (case skip_ws r1 of
                    [] \<Rightarrow> None
                  | c # r2 \<Rightarrow>
                      if c \<noteq> CHR '':'' then None
                      else
                        (case parse_value f r2 of
                           None \<Rightarrow> None
                         | Some (v, r3) \<Rightarrow>
                             (case skip_ws r3 of
                                [] \<Rightarrow> None
                              | d # r4 \<Rightarrow>
                                  if d = CHR '','' then
                                    map_option (\<lambda>(kvs, r5). ((k, v) # kvs, r5))
                                      (parse_members f r4)
                                  else if d = CHR ''}'' then Some ([(k, v)], r4)
                                  else None)))))"

definition parse :: "string \<Rightarrow> json option" where
  "parse text =
     (case parse_value (Suc (2 * length text)) text of
        None \<Rightarrow> None
      | Some (v, r) \<Rightarrow> if skip_ws r = [] then Some v else None)"

text \<open>The characters a value's text can start with.\<close>

definition value_start :: "char \<Rightarrow> bool" where
  "value_start c =
     (c = CHR 0x22 \<or> c = CHR ''['' \<or> c = CHR ''{'' \<or> c = CHR ''t'' \<or> c = CHR ''f'' \<or>
      c = CHR ''n'' \<or> c = CHR ''-'' \<or> is_digit c)"

section \<open>Threads as JSON\<close>

text \<open>
  The program holds a thread as a JavaScript object. \<open>thread_json\<close> is that object, its
  keys in the order in which the object literals of the source set them (\<^verbatim>\<open>threadTs\<close>,
  \<^verbatim>\<open>channel\<close>, \<^verbatim>\<open>messages\<close> at line 226; \<^verbatim>\<open>role\<close>, \<^verbatim>\<open>content\<close> at
  lines 203 to 208 and 288 to 291; \<^verbatim>\<open>type\<close>, \<^verbatim>\<open>tool_use_id\<close>, \<^verbatim>\<open>content\<close>,
  \<^verbatim>\<open>is_error\<close> at lines 187 to 199) and in which the provider sends the blocks of a
  response. A \<^verbatim>\<open>tool_result\<close> has the key \<^verbatim>\<open>is_error\<close> only when it is set.
  Reading a parsed value as a thread looks the keys up, whatever their order; a value that
  is not a thread has no reading (it is outside the declared type of \<^verbatim>\<open>loadThread\<close>).
\<close>

fun role_json :: "role \<Rightarrow> json" where
  "role_json User = JStr ''user''"
| "role_json Assistant = JStr ''assistant''"

fun block_json :: "block \<Rightarrow> json" where
  "block_json (Text t) = JObj [(''type'', JStr ''text''), (''text'', JStr t)]"
| "block_json (ToolUse i name inp) =
     JObj [(''type'', JStr ''tool_use''), (''id'', JStr i), (''name'', JStr name),
           (''input'', JObj inp)]"
| "block_json (ToolResult i c e) =
     JObj ([(''type'', JStr ''tool_result''), (''tool_use_id'', JStr i), (''content'', JStr c)] @
           (case e of None \<Rightarrow> [] | Some b \<Rightarrow> [(''is_error'', JBool b)]))"

fun content_json :: "msg_content \<Rightarrow> json" where
  "content_json (Str s) = JStr s"
| "content_json (Blocks bs) = JArr (map block_json bs)"

definition message_json :: "message \<Rightarrow> json" where
  "message_json m = JObj [(''role'', role_json (role m)), (''content'', content_json (content m))]"

definition thread_json :: "thread \<Rightarrow> json" where
  "thread_json t =
     JObj [(''threadTs'', JStr (threadTs t)), (''channel'', JStr (channel t)),
           (''messages'', JArr (map message_json (messages t)))]"

definition get_string :: "(string \<times> json) list \<Rightarrow> string \<Rightarrow> string option" where
  "get_string kvs k = (case map_of kvs k of Some (JStr s) \<Rightarrow> Some s | _ \<Rightarrow> None)"

fun role_of_json :: "json option \<Rightarrow> role option" where
  "role_of_json (Some (JStr s)) =
     (if s = ''user'' then Some User else if s = ''assistant'' then Some Assistant else None)"
| "role_of_json v = None"

fun is_error_of_json :: "json option \<Rightarrow> bool option option" where
  "is_error_of_json None = Some None"
| "is_error_of_json (Some (JBool b)) = Some (Some b)"
| "is_error_of_json v = None"

fun block_of_json :: "json \<Rightarrow> block option" where
  "block_of_json (JObj kvs) =
     (case get_string kvs ''type'' of
        None \<Rightarrow> None
      | Some ty \<Rightarrow>
          if ty = ''text'' then map_option Text (get_string kvs ''text'')
          else if ty = ''tool_use'' then
            (case (get_string kvs ''id'', get_string kvs ''name'', map_of kvs ''input'') of
               (Some i, Some name, Some (JObj inp)) \<Rightarrow> Some (ToolUse i name inp)
             | _ \<Rightarrow> None)
          else if ty = ''tool_result'' then
            (case (get_string kvs ''tool_use_id'', get_string kvs ''content'',
                   is_error_of_json (map_of kvs ''is_error'')) of
               (Some i, Some c, Some e) \<Rightarrow> Some (ToolResult i c e)
             | _ \<Rightarrow> None)
          else None)"
| "block_of_json v = None"

fun content_of_json :: "json option \<Rightarrow> msg_content option" where
  "content_of_json (Some (JStr s)) = Some (Str s)"
| "content_of_json (Some (JArr vs)) = map_option Blocks (those (map block_of_json vs))"
| "content_of_json v = None"

fun message_of_json :: "json \<Rightarrow> message option" where
  "message_of_json (JObj kvs) =
     (case (role_of_json (map_of kvs ''role''), content_of_json (map_of kvs ''content'')) of
        (Some r, Some c) \<Rightarrow> Some \<lparr>role = r, content = c\<rparr>
      | _ \<Rightarrow> None)"
| "message_of_json v = None"

fun thread_of_json :: "json \<Rightarrow> thread option" where
  "thread_of_json (JObj kvs) =
     (case (get_string kvs ''threadTs'', get_string kvs ''channel'', map_of kvs ''messages'') of
        (Some ts, Some ch, Some (JArr vs)) \<Rightarrow>
          map_option (\<lambda>ms. \<lparr>threadTs = ts, channel = ch, messages = ms\<rparr>)
            (those (map message_of_json vs))
      | _ \<Rightarrow> None)"
| "thread_of_json v = None"

text \<open>
  The codec of the runtime: \<^verbatim>\<open>JSON.stringify(thread, null, 2)\<close> and
  \<^verbatim>\<open>JSON.parse\<close> on threads.
\<close>

definition json_codec :: codec where
  "json_codec =
     \<lparr>JSON_stringify = (\<lambda>t. stringify 0 (thread_json t)),
      JSON_parse = (\<lambda>text. case parse text of None \<Rightarrow> None | Some v \<Rightarrow> thread_of_json v)\<rparr>"

section \<open>The pending mailbox\<close>

text \<open>
  The message handler builds one user message from the Slack event and pushes it on the
  thread's pending list (lines 287 to 292); the loop reads the list and deletes the entry
  (lines 232 to 234).
\<close>

definition backticks :: string where
  "backticks = [CHR 0x60, CHR 0x60, CHR 0x60]"

definition user_message :: "string \<Rightarrow> string \<Rightarrow> string \<Rightarrow> message" where
  "user_message user ts text =
     \<lparr>role = User,
      content = Str (''User <@'' @ user @ ''> sent this message (timestamp: '' @ ts @
        '') in Slack:'' @ newline @ backticks @ newline @ text @ newline @ backticks @
        newline @ newline @ ''You must respond using the '' @ [CHR 0x60] @
        ''send_slack_message'' @ [CHR 0x60] @ '' tool.'')\<rparr>"

text \<open>\<^verbatim>\<open>pendingUserMessages.get(threadTs) ?? []\<close>.\<close>

definition pending_of :: "'w sys \<Rightarrow> tid \<Rightarrow> message list" where
  "pending_of s ts = (case pendingUserMessages s ts of None \<Rightarrow> [] | Some p \<Rightarrow> p)"

definition enqueue :: "tid \<Rightarrow> message \<Rightarrow> 'w sys \<Rightarrow> 'w sys" where
  "enqueue ts m s =
     s\<lparr>pendingUserMessages := (pendingUserMessages s)(ts \<mapsto> pending_of s ts @ [m])\<rparr>"

definition drain :: "tid \<Rightarrow> 'w sys \<Rightarrow> message list \<times> 'w sys" where
  "drain ts s =
     (pending_of s ts, s\<lparr>pendingUserMessages := (pendingUserMessages s)(ts := None)\<rparr>)"

section \<open>The thread loop\<close>

text \<open>
  One pass through the top of the \<^verbatim>\<open>while\<close> loop (lines 226 to 244): load the
  thread or start a fresh one, append the pending messages, delete them from the mailbox,
  read the last message and test it. Reading index \<^verbatim>\<open>length - 1\<close> of an empty array
  gives \<^verbatim>\<open>undefined\<close>, and \<^verbatim>\<open>undefined.role\<close> throws a TypeError (the text of its
  message is the engine's).
\<close>

definition fresh :: "tid \<Rightarrow> string \<Rightarrow> thread" where
  "fresh ts ch = \<lparr>threadTs = ts, channel = ch, messages = []\<rparr>"

definition load_or_fresh :: "codec \<Rightarrow> tid \<Rightarrow> string \<Rightarrow> 'w sys \<Rightarrow> thread" where
  "load_or_fresh cdc ts ch s =
     (case loadThread cdc s ts of None \<Rightarrow> fresh ts ch | Some t \<Rightarrow> t)"

definition lastMessage :: "message list \<Rightarrow> message option" where
  "lastMessage ms = (if ms = [] then None else Some (last ms))"

fun is_tool_result :: "block \<Rightarrow> bool" where
  "is_tool_result (ToolResult i c e) = True"
| "is_tool_result b = False"

text \<open>The condition of the \<^verbatim>\<open>if\<close> that breaks out of the loop (lines 238 to 242).\<close>

definition done_looping :: "message \<Rightarrow> bool" where
  "done_looping m =
     (role m = Assistant \<and>
      (case content m of
         Str text \<Rightarrow> False
       | Blocks bs \<Rightarrow> \<not> list_ex is_tool_result bs))"

definition undefined_role :: error where
  "undefined_role = Error ''Cannot read properties of undefined (reading role)''"

datatype head = Break | Fault error | Generate thread

definition loop_head :: "codec \<Rightarrow> tid \<Rightarrow> string \<Rightarrow> 'w sys \<Rightarrow> head \<times> 'w sys" where
  "loop_head cdc ts ch s =
     (let thread0 = load_or_fresh cdc ts ch s;
          (pending, s1) = drain ts s;
          thread1 = thread0\<lparr>messages := messages thread0 @ pending\<rparr>
      in case lastMessage (messages thread1) of
           None \<Rightarrow> (Fault undefined_role, s1)
         | Some m \<Rightarrow> if done_looping m then (Break, s1) else (Generate thread1, s1))"

text \<open>The \<^verbatim>\<open>finally\<close> block.\<close>

definition finish :: "tid \<Rightarrow> 'w sys \<Rightarrow> 'w sys" where
  "finish ts s = s\<lparr>activeThreadLoops := activeThreadLoops s - {ts}\<rparr>"

text \<open>
  The loop runs without interruption from the top of an iteration to the call of
  \<^verbatim>\<open>generateMessages\<close>, where it suspends: either it leaves through \<^verbatim>\<open>break\<close>
  or the TypeError (and the \<^verbatim>\<open>finally\<close> block runs), or it joins the suspended
  loops.
\<close>

definition iterate :: "codec \<Rightarrow> tid \<Rightarrow> string \<Rightarrow> 'w sys \<Rightarrow> 'w sys" where
  "iterate cdc ts ch s =
     (case loop_head cdc ts ch s of
        (Break, s1) \<Rightarrow> finish ts s1
      | (Fault e, s1) \<Rightarrow> finish ts s1
      | (Generate t, s1) \<Rightarrow> s1\<lparr>awaiting := awaiting s1 @ [(ts, ch, t)]\<rparr>)"

text \<open>\<^verbatim>\<open>runThreadLoop\<close>, from its call to its first suspension or its return.\<close>

definition runThreadLoop :: "codec \<Rightarrow> tid \<Rightarrow> string \<Rightarrow> 'w sys \<Rightarrow> 'w sys" where
  "runThreadLoop cdc ts ch s =
     (if ts \<in> activeThreadLoops s then s
      else iterate cdc ts ch (s\<lparr>activeThreadLoops := insert ts (activeThreadLoops s)\<rparr>))"

definition system_prompt :: string where
  "system_prompt = ''You are a helpful Slack assistant.''"

text \<open>
  The \<open>k\<close>-th suspended loop resumes: the generation round runs in the world (it touches
  neither the store nor the two collections), a thrown error leaves through
  \<^verbatim>\<open>finally\<close>, a result is saved and the next iteration starts at once.
\<close>

definition resume :: "'w runtime \<Rightarrow> codec \<Rightarrow> disk \<Rightarrow> nat \<Rightarrow> 'w sys \<Rightarrow> 'w sys" where
  "resume rt cdc d k s =
     (if length (awaiting s) \<le> k then s
      else
        (let (ts, ch, t) = awaiting s ! k;
             s0 = s\<lparr>awaiting := take k (awaiting s) @ drop (Suc k) (awaiting s)\<rparr>
         in case generateMessages rt ch ts system_prompt (messages t) (world s) of
              (Inl e, w') \<Rightarrow> finish ts (s0\<lparr>world := w'\<rparr>)
            | (Inr msgs, w') \<Rightarrow>
                (case saveThread cdc d ts (t\<lparr>messages := msgs\<rparr>) (s0\<lparr>world := w'\<rparr>) of
                   (Inl e, s1) \<Rightarrow> finish ts s1
                 | (Inr _, s1) \<Rightarrow> iterate cdc ts ch s1)))"

text \<open>
  What can happen to the process: a message arrives for a thread (the handler builds the
  user message, enqueues it and calls \<^verbatim>\<open>runThreadLoop\<close>, all in one go),
  \<^verbatim>\<open>runThreadLoop\<close> is called on its own, or a suspended loop resumes. Messages that
  arrive while a round is under way are events before the loop's \<open>Resume\<close>.
\<close>

datatype event = Message tid string message | Trigger tid string | Resume nat disk

fun step :: "'w runtime \<Rightarrow> codec \<Rightarrow> event \<Rightarrow> 'w sys \<Rightarrow> 'w sys" where
  "step rt cdc (Message ts ch m) s = runThreadLoop cdc ts ch (enqueue ts m s)"
| "step rt cdc (Trigger ts ch) s = runThreadLoop cdc ts ch s"
| "step rt cdc (Resume k d) s = resume rt cdc d k s"

fun run :: "'w runtime \<Rightarrow> codec \<Rightarrow> event list \<Rightarrow> 'w sys \<Rightarrow> 'w sys" where
  "run rt cdc [] s = s"
| "run rt cdc (ev # evs) s = run rt cdc evs (step rt cdc ev s)"

text \<open>
  A process that has just started: the two collections are empty and no loop is
  suspended; the disk holds whatever earlier runs left.
\<close>

definition started :: "bool \<Rightarrow> (tid \<rightharpoonup> string) \<Rightarrow> 'w \<Rightarrow> 'w sys" where
  "started dir fs w =
     \<lparr>threadsDir = dir, files = fs, pendingUserMessages = Map.empty,
      activeThreadLoops = {}, awaiting = [], world = w\<rparr>"

text \<open>The thread an event is about.\<close>

fun thread_of :: "'w sys \<Rightarrow> event \<Rightarrow> tid option" where
  "thread_of s (Message ts ch m) = Some ts"
| "thread_of s (Trigger ts ch) = Some ts"
| "thread_of s (Resume k d) =
     (if length (awaiting s) \<le> k then None else Some (fst (awaiting s ! k)))"

text \<open>The loops of one thread that are running (suspended in a generation round).\<close>

definition loops_of :: "'w sys \<Rightarrow> tid \<Rightarrow> (tid \<times> string \<times> thread) list" where
  "loops_of s ts = filter (\<lambda>l. fst l = ts) (awaiting s)"

text \<open>Everything the process keeps for one thread.\<close>

definition view ::
  "'w sys \<Rightarrow> tid \<Rightarrow> string option \<times> message list option \<times> bool \<times> (tid \<times> string \<times> thread) list"
  where
  "view s ts = (files s ts, pendingUserMessages s ts, ts \<in> activeThreadLoops s, loops_of s ts)"

section \<open>Notions the properties are stated with\<close>

text \<open>
  Between two events every running loop is suspended in its generation round. The
  single-flight condition: no two suspended loops belong to the same thread, and the
  threads of the suspended loops are exactly the members of \<^verbatim>\<open>activeThreadLoops\<close>.
\<close>

definition single_flight :: "'w sys \<Rightarrow> bool" where
  "single_flight s =
     (distinct (map fst (awaiting s)) \<and> set (map fst (awaiting s)) = activeThreadLoops s)"

text \<open>
  The termination predicate in the words of the specification: the last message has
  role assistant and contains no tool call left unanswered. Nothing follows the last
  message, so a call in it can only be answered by a result in the same message.
\<close>

fun blocks_of :: "msg_content \<Rightarrow> block list" where
  "blocks_of (Str text) = []"
| "blocks_of (Blocks bs) = bs"

definition unanswered_tool_calls :: "message \<Rightarrow> string list" where
  "unanswered_tool_calls m =
     filter (\<lambda>i. Some i \<notin> set (map answers (blocks_of (content m))))
       (tool_use_ids (blocks_of (content m)))"

definition spec_termination :: "message list \<Rightarrow> bool" where
  "spec_termination ms =
     (ms \<noteq> [] \<and> role (last ms) = Assistant \<and> unanswered_tool_calls (last ms) = [])"




section \<open>A scripted runtime\<close>

text \<open>
  A runtime for concrete runs: the provider call always ends the given way, the
  command always ends the given way, reading a file always fails, and the world counts
  the calls made.
\<close>

definition scripted :: "error + block list \<Rightarrow> exec_failure + string \<Rightarrow> nat runtime" where
  "scripted response outcome =
     \<lparr>messages_create = (\<lambda>system msgs w. (response, Suc w)),
      chat_postMessage = (\<lambda>ch ts text w. (Inr (), Suc w)),
      fs_readFileSync = (\<lambda>p w. (Inl (Error ''ENOENT: no such file or directory''), Suc w)),
      fs_writeFileSync = (\<lambda>p c w. (Inr (), Suc w)),
      execSync = (\<lambda>c t b w. (outcome, Suc w))\<rparr>"

text \<open>
  What \<^verbatim>\<open>execSync\<close> throws when a command has printed a line and is then killed
  at the timeout.
\<close>

definition timed_out :: exec_failure where
  "timed_out =
     \<lparr>e_stdout = Some (''partial'' @ newline), e_stderr = Some [], e_status = None,
      e_signal = Some ''SIGTERM'', e_code = Some ''ETIMEDOUT'',
      e_message = ''spawnSync /bin/sh ETIMEDOUT''\<rparr>"

definition example_response :: "block list" where
  "example_response =
     [Text ''Let me look.'',
      ToolUse ''t1'' ''read_file'' [(''path'', JStr ''/missing'')],
      ToolUse ''t2'' ''frobnicate'' [],
      ToolUse ''t3'' ''execute_bash'' [(''command'', JStr ''echo partial; sleep 200'')],
      ToolUse ''t4'' ''send_slack_message'' [(''text'', JStr ''hello'')]]"

definition example_results :: "block list" where
  "example_results =
     [ToolResult ''t1'' ''Error: ENOENT: no such file or directory'' (Some True),
      ToolResult ''t2''
        (''Error: tool '' @ [CHR 0x22] @ ''frobnicate'' @ [CHR 0x22] @ '' not found'')
        (Some True),
      ToolResult ''t3'' (''stdout:'' @ newline @ ''partial'' @ newline) None,
      ToolResult ''t4'' ''Message sent.'' None]"

section \<open>Example threads and a table codec\<close>

text \<open>
  A codec given by a table of threads and the texts that stand for their JSON: a thread is
  written as its text, a text of the table is read back as its thread, and any other text
  does not parse.
\<close>

definition table_codec :: "(thread \<times> string) list \<Rightarrow> codec" where
  "table_codec table =
     \<lparr>JSON_stringify = (\<lambda>t. case map_of table t of None \<Rightarrow> [] | Some text \<Rightarrow> text),
      JSON_parse = (\<lambda>text. map_of (map (\<lambda>(t, text). (text, t)) table) text)\<rparr>"

definition hello :: message where
  "hello = user_message ''U1'' ''17.01'' ''hello''"

definition again :: message where
  "again = user_message ''U1'' ''17.05'' ''are you there?''"

definition thread_done :: thread where
  "thread_done =
     \<lparr>threadTs = ''17.01'', channel = ''D1'',
      messages = [hello, \<lparr>role = Assistant, content = Str ''Done.''\<rparr>]\<rparr>"

definition thread_answered :: thread where
  "thread_answered =
     \<lparr>threadTs = ''17.01'', channel = ''D1'',
      messages = [hello, \<lparr>role = Assistant, content = Blocks [Text ''Done.'']\<rparr>]\<rparr>"

definition thread_calling :: thread where
  "thread_calling =
     \<lparr>threadTs = ''17.01'', channel = ''D1'',
      messages = [hello, \<lparr>role = Assistant, content = Blocks
        [ToolUse ''t1'' ''read_file'' [(''path'', JStr ''/missing'')]]\<rparr>]\<rparr>"

text \<open>A thread with every shape of content: a string, a text, a tool call and its result.\<close>

definition thread_small :: thread where
  "thread_small =
     \<lparr>threadTs = ''17.01'', channel = ''D1'',
      messages =
        [\<lparr>role = User, content = Str ''hi''\<rparr>,
         \<lparr>role = Assistant, content = Blocks
            [Text ''ok'', ToolUse ''t1'' ''read_file'' [(''path'', JStr ''/x'')]]\<rparr>,
         \<lparr>role = User, content = Blocks [ToolResult ''t1'' ''Error: no'' (Some True)]\<rparr>]\<rparr>"

definition text_done :: string where
  "text_done = ''{thread 17.01: user hello, assistant Done.}''"

definition text_answered :: string where
  "text_answered = ''{thread 17.01: user hello, assistant [text Done.]}''"

definition text_calling :: string where
  "text_calling = ''{thread 17.01: user hello, assistant [tool_use t1 read_file]}''"

definition example_codec :: codec where
  "example_codec =
     table_codec
       [(thread_done, text_done),
        (thread_answered, text_answered),
        (thread_calling, text_calling)]"

text \<open>A process started on a disk that holds one thread file with the given text.\<close>

definition restarted :: "string \<Rightarrow> nat sys" where
  "restarted text = started True [''17.01'' \<mapsto> text] 0"

text \<open>
  A process started on an empty disk that has received two messages for one thread: the
  first started the loop, the second arrived while the loop was generating.
\<close>

definition busy :: "nat sys" where
  "busy =
     run (scripted (Inr example_response) (Inl timed_out)) example_codec
       [Message ''17.01'' ''D1'' hello, Message ''17.01'' ''D1'' again]
       (started False Map.empty 0)"

section \<open>Properties of the generation round\<close>

lemma call_tool_answers: "answers (fst (call_tool tools i name inp w)) = Some i"
  by (simp add: call_tool_def error_result_def split: option.split prod.split sum.split)

lemma dispatch_answers:
  "map answers (fst (dispatch tools bs w)) = map Some (tool_use_ids bs)"
proof (induction tools bs w rule: dispatch.induct)
  case (2 tools i name inp bs w)
  obtain r w1 where c: "call_tool tools i name inp w = (r, w1)"
    by (cases "call_tool tools i name inp w")
  obtain rs w2 where d: "dispatch tools bs w1 = (rs, w2)"
    by (cases "dispatch tools bs w1")
  from c have "answers r = Some i"
    using call_tool_answers [of tools i name inp w] by simp
  moreover from "2.IH" [of "(r, w1)" r w1] c d
  have "map answers rs = map Some (tool_use_ids bs)" by simp
  ultimately show ?case using c d by simp
qed simp_all

lemma dispatch_append:
  "dispatch tools (bs1 @ bs2) w =
     (let (rs1, w1) = dispatch tools bs1 w;
          (rs2, w2) = dispatch tools bs2 w1
      in (rs1 @ rs2, w2))"
  by (induction tools bs1 w rule: dispatch.induct) (simp_all split: prod.split)

lemma dispatch_empty_iff: "fst (dispatch tools bs w) = [] \<longleftrightarrow> tool_use_ids bs = []"
proof -
  have "length (map answers (fst (dispatch tools bs w))) = length (map Some (tool_use_ids bs))"
    by (simp only: dispatch_answers)
  then have "length (fst (dispatch tools bs w)) = length (tool_use_ids bs)" by simp
  then show ?thesis by (metis length_0_conv)
qed

lemma dispatch_tool_use:
  assumes "dispatch tools bs1 w = (rs1, w1)"
    and "call_tool tools i name inp w1 = (r, w2)"
    and "dispatch tools bs2 w2 = (rs2, w3)"
  shows "dispatch tools (bs1 @ ToolUse i name inp # bs2) w = (rs1 @ r # rs2, w3)"
  using assms by (simp add: dispatch_append)

lemma example_dispatch:
  "dispatch (createTools (scripted (Inr example_response) (Inl timed_out)) ''D1'' ''17.01'')
     example_response 1 = (example_results, 4)"
  by (simp add: example_response_def example_results_def scripted_def timed_out_def
      createTools_def call_tool_def read_file_def execute_bash_def send_slack_message_def
      error_result_def not_found_def bash_failure_def bash_parts_def e_killed_def field_def newline_def)

text \<open>
  C4. Whatever the provider answers, the round returns the given sequence followed by
  exactly one assistant message holding the response's blocks as they came and, exactly
  when the response has a \<^verbatim>\<open>tool_use\<close> block, by exactly one user message. The blocks
  of that user message are \<^verbatim>\<open>tool_result\<close> blocks, one per \<^verbatim>\<open>tool_use\<close> block,
  each naming the id of its call, in the order of the calls. The round works on the world
  only: it takes no store and returns none.
\<close>

theorem generateMessages_appends:
  assumes "messages_create rt system msgs w = (Inr response, w1)"
  shows "fst (generateMessages rt ch ts system msgs w) =
           Inr (msgs @ \<lparr>role = Assistant, content = Blocks response\<rparr> #
                 (if tool_use_ids response = [] then []
                  else [\<lparr>role = User,
                         content = Blocks (fst (dispatch (createTools rt ch ts) response w1))\<rparr>]))
         \<and> map answers (fst (dispatch (createTools rt ch ts) response w1)) =
             map Some (tool_use_ids response)"
proof -
  obtain rs w2 where d: "dispatch (createTools rt ch ts) response w1 = (rs, w2)"
    by (cases "dispatch (createTools rt ch ts) response w1")
  have e: "rs = [] \<longleftrightarrow> tool_use_ids response = []"
    using dispatch_empty_iff [of "createTools rt ch ts" response w1] d by simp
  have "fst (generateMessages rt ch ts system msgs w) =
          Inr (if length rs > 0
               then (msgs @ [\<lparr>role = Assistant, content = Blocks response\<rparr>]) @
                    [\<lparr>role = User, content = Blocks rs\<rparr>]
               else msgs @ [\<lparr>role = Assistant, content = Blocks response\<rparr>])"
    using assms d by (simp add: generateMessages_def)
  then show ?thesis
    using d e dispatch_answers [of "createTools rt ch ts" response w1] by simp
qed

theorem generateMessages_appends_witness:
  "fst (generateMessages (scripted (Inr example_response) (Inl timed_out)) ''D1'' ''17.01''
          ''sys'' [] 0) =
     Inr [\<lparr>role = Assistant, content = Blocks example_response\<rparr>,
          \<lparr>role = User, content = Blocks example_results\<rparr>]
   \<and> map answers example_results = [Some ''t1'', Some ''t2'', Some ''t3'', Some ''t4'']"
proof -
  let ?rt = "scripted (Inr example_response) (Inl timed_out)"
  have c: "messages_create ?rt ''sys'' [] 0 = (Inr example_response, 1)"
    by (simp add: scripted_def)
  have t: "tool_use_ids example_response = [''t1'', ''t2'', ''t3'', ''t4'']"
    by (simp add: example_response_def)
  show ?thesis
    using generateMessages_appends [OF c, of "''D1''" "''17.01''"] t example_dispatch
    by simp
qed

text \<open>
  C5. A \<^verbatim>\<open>tool_use\<close> block anywhere in a response, naming a tool that is not
  registered or whose execution throws: the round still returns, the call is answered by
  a \<^verbatim>\<open>tool_result\<close> with \<^verbatim>\<open>is_error: true\<close> whose content is \<^verbatim>\<open>Error: \<close>
  followed by the error's message (for an unregistered tool, the message names the tool),
  and the calls before and after it are dispatched and answered as they are without it.
\<close>

theorem tool_failure_is_recorded:
  assumes "messages_create rt system msgs w = (Inr (bs1 @ ToolUse i name inp # bs2), w0)"
    and "dispatch (createTools rt ch ts) bs1 w0 = (rs1, w1)"
    and "(map_of (createTools rt ch ts) name = None \<and> w2 = w1 \<and>
          e = Error (''tool '' @ [CHR 0x22] @ name @ [CHR 0x22] @ '' not found'')) \<or>
         (\<exists>execute. map_of (createTools rt ch ts) name = Some execute \<and>
                    execute inp w1 = (Inl e, w2))"
    and "dispatch (createTools rt ch ts) bs2 w2 = (rs2, w3)"
  shows "generateMessages rt ch ts system msgs w =
           (Inr (msgs @
              [\<lparr>role = Assistant, content = Blocks (bs1 @ ToolUse i name inp # bs2)\<rparr>,
               \<lparr>role = User, content = Blocks
                  (rs1 @ ToolResult i (''Error: '' @ message_of e) (Some True) # rs2)\<rparr>]), w3)
         \<and> map answers rs1 = map Some (tool_use_ids bs1)
         \<and> map answers rs2 = map Some (tool_use_ids bs2)"
proof -
  let ?tools = "createTools rt ch ts"
  let ?r = "ToolResult i (''Error: '' @ message_of e) (Some True)"
  have call: "call_tool ?tools i name inp w1 = (?r, w2)"
    using assms(3)
  proof
    assume "map_of ?tools name = None \<and> w2 = w1 \<and>
            e = Error (''tool '' @ [CHR 0x22] @ name @ [CHR 0x22] @ '' not found'')"
    then show ?thesis
      by (simp add: call_tool_def error_result_def not_found_def)
  next
    assume "\<exists>execute. map_of ?tools name = Some execute \<and> execute inp w1 = (Inl e, w2)"
    then obtain execute
      where "map_of ?tools name = Some execute" "execute inp w1 = (Inl e, w2)"
      by blast
    then show ?thesis
      by (simp add: call_tool_def error_result_def)
  qed
  have all: "dispatch ?tools (bs1 @ ToolUse i name inp # bs2) w0 = (rs1 @ ?r # rs2, w3)"
    using assms(2) call assms(4) by (rule dispatch_tool_use)
  have round: "generateMessages rt ch ts system msgs w =
      (Inr (msgs @
         [\<lparr>role = Assistant, content = Blocks (bs1 @ ToolUse i name inp # bs2)\<rparr>,
          \<lparr>role = User, content = Blocks (rs1 @ ?r # rs2)\<rparr>]), w3)"
    using assms(1) all by (simp add: generateMessages_def)
  have before: "map answers rs1 = map Some (tool_use_ids bs1)"
    using dispatch_answers [of ?tools bs1 w0] assms(2) by simp
  have after: "map answers rs2 = map Some (tool_use_ids bs2)"
    using dispatch_answers [of ?tools bs2 w2] assms(4) by simp
  from round before after show ?thesis by simp
qed

theorem tool_failure_is_recorded_witness:
  "generateMessages (scripted (Inr example_response) (Inl timed_out)) ''D1'' ''17.01'' ''sys'' [] 0 =
     (Inr [\<lparr>role = Assistant, content = Blocks example_response\<rparr>,
           \<lparr>role = User, content = Blocks example_results\<rparr>], 4)
   \<and> map_of (createTools (scripted (Inr example_response) (Inl timed_out)) ''D1'' ''17.01'')
        ''frobnicate'' = None
   \<and> example_results ! 1 =
        ToolResult ''t2''
          (''Error: tool '' @ [CHR 0x22] @ ''frobnicate'' @ [CHR 0x22] @ '' not found'')
          (Some True)
   \<and> fst (generateMessages (scripted (Inr example_response) (Inl timed_out)) ''D1'' ''17.01''
            ''sys'' [] 0) =
       Inr [\<lparr>role = Assistant, content = Blocks example_response\<rparr>,
            \<lparr>role = User, content = Blocks
               (ToolResult ''t1'' ''Error: ENOENT: no such file or directory'' (Some True) #
                drop 1 example_results)\<rparr>]"
proof -
  let ?rt = "scripted (Inr example_response) (Inl timed_out)"
  let ?tools = "createTools ?rt ''D1'' ''17.01''"
  let ?bs1 = "[Text ''Let me look.'',
               ToolUse ''t1'' ''read_file'' [(''path'', JStr ''/missing'')]]"
  let ?bs2 = "[ToolUse ''t3'' ''execute_bash'' [(''command'', JStr ''echo partial; sleep 200'')],
               ToolUse ''t4'' ''send_slack_message'' [(''text'', JStr ''hello'')]]"
  have resp: "example_response = ?bs1 @ ToolUse ''t2'' ''frobnicate'' [] # ?bs2"
    by (simp add: example_response_def)
  have c: "messages_create ?rt ''sys'' [] 0 =
             (Inr (?bs1 @ ToolUse ''t2'' ''frobnicate'' [] # ?bs2), 1)"
    by (simp add: scripted_def example_response_def)
  have d1: "dispatch ?tools ?bs1 1 = (take 1 example_results, 2)"
    by (simp add: example_results_def scripted_def createTools_def call_tool_def read_file_def
        error_result_def field_def)
  have unknown: "map_of ?tools ''frobnicate'' = None"
    by (simp add: createTools_def)
  have d2: "dispatch ?tools ?bs2 2 = (drop 2 example_results, 4)"
    by (simp add: example_results_def scripted_def timed_out_def createTools_def call_tool_def
        execute_bash_def send_slack_message_def bash_failure_def bash_parts_def e_killed_def field_def
        newline_def)
  have f: "(map_of ?tools ''frobnicate'' = None \<and> (2::nat) = 2 \<and>
             Error (''tool '' @ [CHR 0x22] @ ''frobnicate'' @ [CHR 0x22] @ '' not found'') =
             Error (''tool '' @ [CHR 0x22] @ ''frobnicate'' @ [CHR 0x22] @ '' not found'')) \<or>
           (\<exists>execute. map_of ?tools ''frobnicate'' = Some execute \<and>
              execute [] 2 =
                (Inl (Error (''tool '' @ [CHR 0x22] @ ''frobnicate'' @ [CHR 0x22] @ '' not found'')), 2))"
    using unknown by simp
  have r: "take 1 example_results @
           ToolResult ''t2'' (''Error: '' @ message_of
             (Error (''tool '' @ [CHR 0x22] @ ''frobnicate'' @ [CHR 0x22] @ '' not found'')))
             (Some True) # drop 2 example_results = example_results"
    by (simp add: example_results_def)
  have first: "generateMessages ?rt ''D1'' ''17.01'' ''sys'' [] 0 =
     (Inr [\<lparr>role = Assistant, content = Blocks example_response\<rparr>,
           \<lparr>role = User, content = Blocks example_results\<rparr>], 4)"
    using tool_failure_is_recorded [OF c d1 f d2] r resp by simp
  let ?cs1 = "[Text ''Let me look.'']"
  let ?cs2 = "ToolUse ''t2'' ''frobnicate'' [] # ?bs2"
  let ?inp = "[(''path'', JStr ''/missing'')]"
  have c': "messages_create ?rt ''sys'' [] 0 =
             (Inr (?cs1 @ ToolUse ''t1'' ''read_file'' ?inp # ?cs2), 1)"
    by (simp add: scripted_def example_response_def)
  have e1: "dispatch ?tools ?cs1 1 = ([], 1)"
    by simp
  have thrown: "(map_of ?tools ''read_file'' = None \<and> (2::nat) = 1 \<and>
             Error ''ENOENT: no such file or directory'' =
             Error (''tool '' @ [CHR 0x22] @ ''read_file'' @ [CHR 0x22] @ '' not found'')) \<or>
           (\<exists>execute. map_of ?tools ''read_file'' = Some execute \<and>
              execute ?inp 1 = (Inl (Error ''ENOENT: no such file or directory''), 2))"
    by (simp add: createTools_def read_file_def scripted_def)
  have e2: "dispatch ?tools ?cs2 2 = (drop 1 example_results, 4)"
    by (simp add: example_results_def scripted_def timed_out_def createTools_def call_tool_def
        execute_bash_def send_slack_message_def bash_failure_def bash_parts_def e_killed_def field_def
        newline_def error_result_def not_found_def)
  have second: "fst (generateMessages ?rt ''D1'' ''17.01'' ''sys'' [] 0) =
     Inr [\<lparr>role = Assistant, content = Blocks example_response\<rparr>,
          \<lparr>role = User, content = Blocks
             (ToolResult ''t1'' ''Error: ENOENT: no such file or directory'' (Some True) #
              drop 1 example_results)\<rparr>]"
    using tool_failure_is_recorded [OF c' e1 thrown e2]
    by (simp add: example_response_def)
  have nth: "example_results ! 1 =
        ToolResult ''t2''
          (''Error: tool '' @ [CHR 0x22] @ ''frobnicate'' @ [CHR 0x22] @ '' not found'')
          (Some True)"
    by (simp add: example_results_def)
  from first second unknown nth show ?thesis by simp
qed

text \<open>
  What a call of \<^verbatim>\<open>execute_bash\<close> is answered with, whatever the runtime does: the
  command runs with a timeout of 120000 ms and a buffer of 1 MiB, and the answer is always
  a \<^verbatim>\<open>tool_result\<close> without \<^verbatim>\<open>is_error\<close>. On a clean exit the content is the
  standard output, or \<^verbatim>\<open>(no output)\<close> when that is empty. When
  \<^verbatim>\<open>execSync\<close> throws, the content is the labelled standard output and the labelled
  standard error (each only when the error carries it), joined by a newline; an error that
  carries neither is reported by its message. The third part, the timeout marker, is
  never there: the error has no \<^verbatim>\<open>killed\<close>.
\<close>

lemma execute_bash_result:
  "call_tool (createTools rt ch ts) i ''execute_bash'' inp w =
     (case execSync rt (field ''command'' inp) 120000 (1024 * 1024) w of
        (Inr output, w') \<Rightarrow>
          (ToolResult i (if output = [] then ''(no output)'' else output) None, w')
      | (Inl e, w') \<Rightarrow>
          (ToolResult i
             (if bash_parts e = [] then ''Error: '' @ e_message e
              else join newline (bash_parts e)) None, w'))"
proof -
  have look: "map_of (createTools rt ch ts) ''execute_bash'' = Some (execute_bash rt)"
    by (simp add: createTools_def)
  show ?thesis
    unfolding call_tool_def look
    by (simp add: execute_bash_def timeout_ms_def maxBuffer_def bash_success_def
        bash_failure_def split: prod.split sum.split)
qed

lemma bash_parts_eq:
  "bash_parts e =
     (if truthy (e_stdout e) then [''stdout:'' @ newline @ the (e_stdout e)] else []) @
     (if truthy (e_stderr e) then [''stderr:'' @ newline @ the (e_stderr e)] else [])"
  by (simp add: bash_parts_def e_killed_def)

lemma execute_bash_clean_exit:
  "fst (call_tool (createTools (scripted (Inr []) (Inr (''hello'' @ newline))) ''D1'' ''17.01'')
          ''t1'' ''execute_bash'' [(''command'', JStr ''echo hello'')] 0) =
     ToolResult ''t1'' (''hello'' @ newline) None
   \<and> fst (call_tool (createTools (scripted (Inr []) (Inr [])) ''D1'' ''17.01'')
          ''t1'' ''execute_bash'' [(''command'', JStr ''true'')] 0) =
     ToolResult ''t1'' ''(no output)'' None"
  by (simp add: execute_bash_result scripted_def newline_def)

text \<open>
  C6 holds of the code except for the timeout marker. A command that prints a line and
  then runs into the 120 second timeout is killed, and \<^verbatim>\<open>execSync\<close> throws an error
  with the code \<^verbatim>\<open>ETIMEDOUT\<close>. The answer is the labelled partial output alone, as
  ordinary content without \<^verbatim>\<open>is_error\<close>; the marker
  \<^verbatim>\<open>Error: command timed out\<close> of line 144 is no part of it, and of no answer to any
  error: a killed command without output is reported by the error's message.
\<close>

theorem execute_bash_timeout_without_marker:
  "e_code timed_out = Some ''ETIMEDOUT''
   \<and> call_tool (createTools (scripted (Inr []) (Inl timed_out)) ''D1'' ''17.01'')
         ''t3'' ''execute_bash'' [(''command'', JStr ''echo partial; sleep 200'')] 0 =
       (ToolResult ''t3'' (''stdout:'' @ newline @ ''partial'' @ newline) None, 1)
   \<and> (\<forall>e. ''Error: command timed out'' \<notin> set (bash_parts e))
   \<and> bash_failure (timed_out\<lparr>e_stdout := Some []\<rparr>) = ''Error: spawnSync /bin/sh ETIMEDOUT''"
proof -
  have code: "e_code timed_out = Some ''ETIMEDOUT''"
    by (simp add: timed_out_def)
  have answer: "call_tool (createTools (scripted (Inr []) (Inl timed_out)) ''D1'' ''17.01'')
         ''t3'' ''execute_bash'' [(''command'', JStr ''echo partial; sleep 200'')] 0 =
       (ToolResult ''t3'' (''stdout:'' @ newline @ ''partial'' @ newline) None, 1)"
    by (simp add: execute_bash_result bash_parts_eq scripted_def timed_out_def newline_def)
  have never: "\<forall>e. ''Error: command timed out'' \<notin> set (bash_parts e)"
    by (simp add: bash_parts_eq newline_def)
  have silent: "bash_failure (timed_out\<lparr>e_stdout := Some []\<rparr>) =
                  ''Error: spawnSync /bin/sh ETIMEDOUT''"
    by (simp add: bash_failure_def bash_parts_eq timed_out_def)
  from code answer never silent show ?thesis by simp
qed

section \<open>Properties of the thread loop\<close>

lemma loop_head_keeps:
  assumes "loop_head cdc ts ch s = (h, s1)"
  shows "awaiting s1 = awaiting s" "activeThreadLoops s1 = activeThreadLoops s"
    "files s1 = files s" "threadsDir s1 = threadsDir s" "world s1 = world s"
    "pendingUserMessages s1 = (pendingUserMessages s)(ts := None)"
  using assms
  by (auto simp: loop_head_def drain_def Let_def split: option.splits if_splits)

lemma iterate_single_flight:
  assumes "distinct (map fst (awaiting s))" "set (map fst (awaiting s)) = activeThreadLoops s - {ts}"
    "ts \<in> activeThreadLoops s"
  shows "single_flight (iterate cdc ts ch s)"
proof -
  obtain h s1 where h: "loop_head cdc ts ch s = (h, s1)" by (cases "loop_head cdc ts ch s")
  note k = loop_head_keeps [OF h]
  show ?thesis
  proof (cases h)
    case Break
    then show ?thesis using h k assms by (simp add: iterate_def finish_def single_flight_def)
  next
    case (Fault e)
    then show ?thesis using h k assms by (simp add: iterate_def finish_def single_flight_def)
  next
    case (Generate t)
    then show ?thesis using h k assms by (auto simp add: iterate_def single_flight_def)
  qed
qed

lemma runThreadLoop_single_flight:
  assumes "single_flight s"
  shows "single_flight (runThreadLoop cdc ts ch s)"
proof (cases "ts \<in> activeThreadLoops s")
  case True
  then show ?thesis using assms by (simp add: runThreadLoop_def)
next
  case False
  let ?s = "s\<lparr>activeThreadLoops := insert ts (activeThreadLoops s)\<rparr>"
  have "single_flight (iterate cdc ts ch ?s)"
    using assms False by (intro iterate_single_flight) (auto simp: single_flight_def)
  then show ?thesis using False by (simp add: runThreadLoop_def)
qed

lemma enqueue_single_flight: "single_flight (enqueue ts m s) = single_flight s"
  by (simp add: enqueue_def single_flight_def)

lemma distinct_remove_nth:
  assumes "distinct (map fst xs)" "k < length xs"
  shows "distinct (map fst (take k xs @ drop (Suc k) xs))"
    and "set (map fst (take k xs @ drop (Suc k) xs)) = set (map fst xs) - {fst (xs ! k)}"
proof -
  have xs: "xs = take k xs @ xs ! k # drop (Suc k) xs"
    using assms(2) by (simp add: id_take_nth_drop)
  have d: "distinct (map fst (take k xs @ xs ! k # drop (Suc k) xs))"
    using assms(1) xs by simp
  then show "distinct (map fst (take k xs @ drop (Suc k) xs))" by auto
  have "set (map fst xs) = set (map fst (take k xs @ xs ! k # drop (Suc k) xs))"
    using xs by simp
  then show "set (map fst (take k xs @ drop (Suc k) xs)) = set (map fst xs) - {fst (xs ! k)}"
    using d by auto
qed

lemma resume_single_flight:
  assumes "single_flight s"
  shows "single_flight (resume rt cdc d k s)"
proof (cases "length (awaiting s) \<le> k")
  case True
  then show ?thesis using assms by (simp add: resume_def)
next
  case False
  then have k: "k < length (awaiting s)" by simp
  obtain ts ch t where l: "awaiting s ! k = (ts, ch, t)" by (cases "awaiting s ! k")
  let ?s0 = "s\<lparr>awaiting := take k (awaiting s) @ drop (Suc k) (awaiting s)\<rparr>"
  have in_active: "ts \<in> activeThreadLoops s"
    using assms k l by (metis fst_conv nth_map nth_mem length_map single_flight_def)
  have d0: "distinct (map fst (awaiting ?s0))"
    using distinct_remove_nth(1) [of "awaiting s" k] assms k by (simp add: single_flight_def)
  have s0: "set (map fst (awaiting ?s0)) = activeThreadLoops s - {ts}"
    using distinct_remove_nth(2) [of "awaiting s" k] assms k l by (simp add: single_flight_def)
  obtain r w' where g: "generateMessages rt ch ts system_prompt (messages t) (world s) = (r, w')"
    by (cases "generateMessages rt ch ts system_prompt (messages t) (world s)")
  show ?thesis
  proof (cases r)
    case (Inl e)
    then show ?thesis using False l g d0 s0
      by (simp add: resume_def finish_def single_flight_def)
  next
    case (Inr msgs)
    obtain v s1 where sv: "saveThread cdc d ts (t\<lparr>messages := msgs\<rparr>) (?s0\<lparr>world := w'\<rparr>) = (v, s1)"
      by (cases "saveThread cdc d ts (t\<lparr>messages := msgs\<rparr>) (?s0\<lparr>world := w'\<rparr>)")
    have keep: "awaiting s1 = awaiting ?s0" "activeThreadLoops s1 = activeThreadLoops s"
      using sv by (auto simp: saveThread_def split: disk.splits)
    show ?thesis
    proof (cases v)
      case (Inl e)
      then show ?thesis using False l g Inr sv keep d0 s0
        by (simp add: resume_def finish_def single_flight_def)
    next
      case (Inr u)
      have "single_flight (iterate cdc ts ch s1)"
        using keep d0 s0 in_active by (intro iterate_single_flight) simp_all
      then show ?thesis using False l g \<open>r = Inr msgs\<close> Inr sv
        by (simp add: resume_def)
    qed
  qed
qed

lemma step_single_flight: "single_flight s \<Longrightarrow> single_flight (step rt cdc ev s)"
  by (cases ev) (simp_all add: runThreadLoop_single_flight enqueue_single_flight resume_single_flight)

lemma run_single_flight: "single_flight s \<Longrightarrow> single_flight (run rt cdc evs s)"
  by (induction evs arbitrary: s) (simp_all add: step_single_flight)

lemma started_single_flight: "single_flight (started dir fs w)"
  by (simp add: started_def single_flight_def)

lemma loop_head_eq:
  "loop_head cdc ts ch s =
     (let msgs = messages (load_or_fresh cdc ts ch s) @ pending_of s ts
      in if msgs = [] then Fault undefined_role
         else if done_looping (last msgs) then Break
         else Generate ((load_or_fresh cdc ts ch s)\<lparr>messages := msgs\<rparr>),
      snd (drain ts s))"
  by (simp add: loop_head_def drain_def lastMessage_def Let_def)

lemma iterate_eq:
  "iterate cdc ts ch s =
     (let msgs = messages (load_or_fresh cdc ts ch s) @ pending_of s ts;
          s1 = snd (drain ts s)
      in if msgs = [] \<or> done_looping (last msgs) then finish ts s1
         else s1\<lparr>awaiting := awaiting s1 @ [(ts, ch, (load_or_fresh cdc ts ch s)\<lparr>messages := msgs\<rparr>)]\<rparr>)"
  by (simp add: iterate_def loop_head_eq Let_def)


lemma loops_of_append: "loops_of (s\<lparr>awaiting := awaiting s @ [(ts, ch, t)]\<rparr>) ts' =
   (if ts' = ts then loops_of s ts @ [(ts, ch, t)] else loops_of s ts')"
  by (simp add: loops_of_def)

lemma iterate_other:
  assumes "ts' \<noteq> ts"
  shows "view (iterate cdc ts ch s) ts' = view s ts'"
  using assms
  by (simp add: iterate_eq Let_def drain_def finish_def view_def loops_of_def)

lemma runThreadLoop_other:
  assumes "ts' \<noteq> ts"
  shows "view (runThreadLoop cdc ts ch s) ts' = view s ts'"
proof -
  have "view (s\<lparr>activeThreadLoops := insert ts (activeThreadLoops s)\<rparr>) ts' = view s ts'"
    using assms by (simp add: view_def loops_of_def)
  then show ?thesis
    using iterate_other [OF assms, of cdc ch "s\<lparr>activeThreadLoops := insert ts (activeThreadLoops s)\<rparr>"]
    by (simp add: runThreadLoop_def)
qed

lemma enqueue_other:
  assumes "ts' \<noteq> ts"
  shows "view (enqueue ts m s) ts' = view s ts'"
  using assms by (simp add: enqueue_def view_def loops_of_def)

lemma filter_remove_nth:
  assumes "k < length xs" "\<not> P (xs ! k)"
  shows "filter P (take k xs @ drop (Suc k) xs) = filter P xs"
proof -
  have "filter P xs = filter P (take k xs @ xs ! k # drop (Suc k) xs)"
    using assms(1) by (simp add: id_take_nth_drop [symmetric])
  then show ?thesis using assms(2) by simp
qed

lemma resume_other:
  assumes "thread_of s (Resume k d) \<noteq> Some ts'"
  shows "view (resume rt cdc d k s) ts' = view s ts'"
proof (cases "length (awaiting s) \<le> k")
  case True
  then show ?thesis by (simp add: resume_def)
next
  case False
  then have k: "k < length (awaiting s)" by simp
  obtain ts ch t where l: "awaiting s ! k = (ts, ch, t)" by (cases "awaiting s ! k")
  have ne: "ts' \<noteq> ts" using assms False l by auto
  let ?s0 = "s\<lparr>awaiting := take k (awaiting s) @ drop (Suc k) (awaiting s)\<rparr>"
  have v0: "view ?s0 ts' = view s ts'"
    using filter_remove_nth [of k "awaiting s" "\<lambda>l. fst l = ts'"] k l ne
    by (simp add: view_def loops_of_def)
  obtain r w' where g: "generateMessages rt ch ts system_prompt (messages t) (world s) = (r, w')"
    by (cases "generateMessages rt ch ts system_prompt (messages t) (world s)")
  have vw: "view (?s0\<lparr>world := w'\<rparr>) ts' = view s ts'"
    using v0 by (simp add: view_def loops_of_def)
  show ?thesis
  proof (cases r)
    case (Inl e)
    have "view (finish ts (?s0\<lparr>world := w'\<rparr>)) ts' = view s ts'"
      using vw ne by (simp add: view_def loops_of_def finish_def)
    then show ?thesis using False l g Inl by (simp add: resume_def)
  next
    case (Inr msgs)
    obtain v s1 where sv: "saveThread cdc d ts (t\<lparr>messages := msgs\<rparr>) (?s0\<lparr>world := w'\<rparr>) = (v, s1)"
      by (cases "saveThread cdc d ts (t\<lparr>messages := msgs\<rparr>) (?s0\<lparr>world := w'\<rparr>)")
    have v1: "view s1 ts' = view s ts'"
      using sv vw ne by (auto simp: saveThread_def view_def loops_of_def split: disk.splits)
    show ?thesis
    proof (cases v)
      case (Inl e)
      have "view (finish ts s1) ts' = view s ts'"
        using v1 ne by (simp add: view_def loops_of_def finish_def)
      then show ?thesis using False l g \<open>r = Inr msgs\<close> sv Inl by (simp add: resume_def)
    next
      case (Inr u)
      have "view (iterate cdc ts ch s1) ts' = view s ts'"
        using iterate_other [OF ne, of cdc ch s1] v1 by simp
      then show ?thesis using False l g \<open>r = Inr msgs\<close> sv Inr by (simp add: resume_def)
    qed
  qed
qed

lemma step_other:
  assumes "thread_of s ev \<noteq> Some ts'"
  shows "view (step rt cdc ev s) ts' = view s ts'"
proof (cases ev)
  case (Message ts ch m)
  then have ne: "ts' \<noteq> ts" using assms by auto
  show ?thesis
    using Message runThreadLoop_other [OF ne, of cdc ch "enqueue ts m s"] enqueue_other [OF ne, of m s]
    by simp
next
  case (Trigger ts ch)
  then have ne: "ts' \<noteq> ts" using assms by auto
  show ?thesis using Trigger runThreadLoop_other [OF ne, of cdc ch s] by simp
next
  case (Resume k d)
  then show ?thesis using assms resume_other [of s k d ts' rt cdc] by simp
qed

lemma single_flight_loops:
  assumes "single_flight s"
  shows "length (loops_of s ts) \<le> 1" and "ts \<in> activeThreadLoops s \<longleftrightarrow> loops_of s ts \<noteq> []"
proof -
  have d: "distinct (map fst (awaiting s))" using assms by (simp add: single_flight_def)
  have "length (filter (\<lambda>l. fst l = ts) xs) \<le> 1" if "distinct (map fst xs)" for xs :: "(tid \<times> string \<times> thread) list"
    using that
  proof (induction xs)
    case Nil
    then show ?case by simp
  next
    case (Cons x xs)
    show ?case
    proof (cases "fst x = ts")
      case True
      then have "ts \<notin> fst ` set xs" using Cons.prems by auto
      then have "filter (\<lambda>l. fst l = ts) xs = []" by (auto simp: filter_empty_conv)
      then show ?thesis using True by simp
    next
      case False
      then show ?thesis using Cons by simp
    qed
  qed
  then show "length (loops_of s ts) \<le> 1" using d by (simp add: loops_of_def)
  have "ts \<in> set (map fst (awaiting s)) \<longleftrightarrow> filter (\<lambda>l. fst l = ts) (awaiting s) \<noteq> []"
    by (auto simp: filter_empty_conv)
  then show "ts \<in> activeThreadLoops s \<longleftrightarrow> loops_of s ts \<noteq> []"
    using assms by (simp add: single_flight_def loops_of_def)
qed

text \<open>
  C2. In every state the process can reach from its start, and in the state after any
  further event, a thread has at most one running loop, and it is in
  \<^verbatim>\<open>activeThreadLoops\<close> exactly when it has one: a loop that has left, by
  \<^verbatim>\<open>break\<close> or by a thrown error, has taken its thread out of the set. Calling
  \<^verbatim>\<open>runThreadLoop\<close> for a thread that is in the set changes nothing. An event of one
  thread leaves everything the process keeps for any other thread as it is: its file, its
  pending messages, its membership in the set and its loop.
\<close>

theorem single_flight_per_thread:
  assumes "s = run rt cdc evs (started dir fs w)"
    and "s' = step rt cdc ev s"
  shows "length (loops_of s ts) \<le> 1
       \<and> (ts \<in> activeThreadLoops s \<longleftrightarrow> loops_of s ts \<noteq> [])
       \<and> (ts \<in> activeThreadLoops s \<longrightarrow> runThreadLoop cdc ts ch s = s)
       \<and> length (loops_of s' ts) \<le> 1
       \<and> (ts \<in> activeThreadLoops s' \<longleftrightarrow> loops_of s' ts \<noteq> [])
       \<and> (thread_of s ev \<noteq> Some ts \<longrightarrow> view s' ts = view s ts)"
proof -
  have inv: "single_flight s"
    using assms(1) run_single_flight [OF started_single_flight] by simp
  then have inv': "single_flight s'"
    using assms(2) by (simp add: step_single_flight)
  have again: "ts \<in> activeThreadLoops s \<longrightarrow> runThreadLoop cdc ts ch s = s"
    by (simp add: runThreadLoop_def)
  have other: "thread_of s ev \<noteq> Some ts \<longrightarrow> view s' ts = view s ts"
    using assms(2) step_other [of s ev ts rt cdc] by simp
  from single_flight_loops [OF inv, of ts] single_flight_loops [OF inv', of ts] again other
  show ?thesis by simp
qed

lemma busy_eq:
  "busy = \<lparr>threadsDir = False, files = Map.empty,
           pendingUserMessages = [''17.01'' \<mapsto> [again]],
           activeThreadLoops = {''17.01''},
           awaiting = [(''17.01'', ''D1'', \<lparr>threadTs = ''17.01'', channel = ''D1'', messages = [hello]\<rparr>)],
           world = 0\<rparr>"
  by (simp add: busy_def started_def runThreadLoop_def enqueue_def pending_of_def iterate_eq
      load_or_fresh_def loadThread_def fresh_def drain_def done_looping_def hello_def
      user_message_def Let_def)

theorem single_flight_per_thread_witness:
  "length (loops_of busy ''17.01'') = 1
   \<and> ''17.01'' \<in> activeThreadLoops busy
   \<and> pending_of busy ''17.01'' = [again]
   \<and> runThreadLoop example_codec ''17.01'' ''D1'' busy = busy
   \<and> view (step (scripted (Inr example_response) (Inl timed_out)) example_codec
              (Message ''17.02'' ''D2'' hello) busy) ''17.01'' = view busy ''17.01''"
proof -
  let ?rt = "scripted (Inr example_response) (Inl timed_out)"
  have active: "''17.01'' \<in> activeThreadLoops busy"
    by (simp add: busy_eq)
  have pending: "pending_of busy ''17.01'' = [again]"
    by (simp add: busy_eq pending_of_def)
  have other: "thread_of busy (Message ''17.02'' ''D2'' hello) \<noteq> Some ''17.01''"
    by simp
  from single_flight_per_thread [of busy ?rt example_codec
      "[Message ''17.01'' ''D1'' hello, Message ''17.01'' ''D1'' again]" False Map.empty 0
      "step ?rt example_codec (Message ''17.02'' ''D2'' hello) busy"
      "Message ''17.02'' ''D2'' hello" "''17.01''" "''D1''"]
  have "length (loops_of busy ''17.01'') \<le> 1
       \<and> (''17.01'' \<in> activeThreadLoops busy \<longleftrightarrow> loops_of busy ''17.01'' \<noteq> [])
       \<and> (''17.01'' \<in> activeThreadLoops busy \<longrightarrow> runThreadLoop example_codec ''17.01'' ''D1'' busy = busy)
       \<and> (thread_of busy (Message ''17.02'' ''D2'' hello) \<noteq> Some ''17.01'' \<longrightarrow>
            view (step ?rt example_codec (Message ''17.02'' ''D2'' hello) busy) ''17.01'' = view busy ''17.01'')"
    by (simp add: busy_def)
  with active other have
    l: "length (loops_of busy ''17.01'') \<le> 1" and n: "loops_of busy ''17.01'' \<noteq> []"
    and r: "runThreadLoop example_codec ''17.01'' ''D1'' busy = busy"
    and v: "view (step ?rt example_codec (Message ''17.02'' ''D2'' hello) busy) ''17.01'' = view busy ''17.01''"
    by blast+
  from l n have "length (loops_of busy ''17.01'') = 1"
    by (cases "loops_of busy ''17.01''") simp_all
  with active pending r v show ?thesis by simp
qed

text \<open>
  C1 (amended). With a non-empty sequence after the drain: when the last message has role
  assistant and its content is an array of blocks with neither a \<^verbatim>\<open>tool_use\<close> nor a
  \<^verbatim>\<open>tool_result\<close> block, the loop breaks, the thread leaves
  \<^verbatim>\<open>activeThreadLoops\<close>, no generation round starts and the world is not touched;
  when the last message has role user, or its content is a plain string, the loop does not
  break and starts a generation round on the whole sequence.
\<close>

theorem loop_stops_on_final_answer:
  assumes "msgs = messages (load_or_fresh cdc ts ch s) @ pending_of s ts"
    and "msgs \<noteq> []"
  shows "(role (last msgs) = Assistant \<and>
          (\<exists>bs. content (last msgs) = Blocks bs \<and> tool_use_ids bs = [] \<and>
                \<not> list_ex is_tool_result bs) \<longrightarrow>
            fst (loop_head cdc ts ch s) = Break
            \<and> ts \<notin> activeThreadLoops (iterate cdc ts ch s)
            \<and> awaiting (iterate cdc ts ch s) = awaiting s
            \<and> world (iterate cdc ts ch s) = world s)
       \<and> (role (last msgs) = User \<or> (\<exists>text. content (last msgs) = Str text) \<longrightarrow>
            fst (loop_head cdc ts ch s) =
              Generate ((load_or_fresh cdc ts ch s)\<lparr>messages := msgs\<rparr>)
            \<and> awaiting (iterate cdc ts ch s) =
                awaiting s @ [(ts, ch, (load_or_fresh cdc ts ch s)\<lparr>messages := msgs\<rparr>)])"
proof (intro conjI impI)
  assume final: "role (last msgs) = Assistant \<and>
          (\<exists>bs. content (last msgs) = Blocks bs \<and> tool_use_ids bs = [] \<and>
                \<not> list_ex is_tool_result bs)"
  then have d: "done_looping (last msgs)"
    by (auto simp: done_looping_def)
  show "fst (loop_head cdc ts ch s) = Break"
    using assms d by (simp add: loop_head_eq Let_def)
  show "ts \<notin> activeThreadLoops (iterate cdc ts ch s)"
    using assms d by (simp add: iterate_eq Let_def finish_def)
  show "awaiting (iterate cdc ts ch s) = awaiting s"
    using assms d by (simp add: iterate_eq Let_def finish_def drain_def)
  show "world (iterate cdc ts ch s) = world s"
    using assms d by (simp add: iterate_eq Let_def finish_def drain_def)
next
  assume open_turn: "role (last msgs) = User \<or> (\<exists>text. content (last msgs) = Str text)"
  then have d: "\<not> done_looping (last msgs)"
    by (auto simp: done_looping_def)
  show "fst (loop_head cdc ts ch s) = Generate ((load_or_fresh cdc ts ch s)\<lparr>messages := msgs\<rparr>)"
    using assms d by (simp add: loop_head_eq Let_def)
  show "awaiting (iterate cdc ts ch s) =
          awaiting s @ [(ts, ch, (load_or_fresh cdc ts ch s)\<lparr>messages := msgs\<rparr>)]"
    using assms d by (auto simp add: iterate_eq Let_def drain_def)
qed

lemma example_parse:
  "JSON_parse example_codec text_done = Some thread_done"
  "JSON_parse example_codec text_answered = Some thread_answered"
  "JSON_parse example_codec text_calling = Some thread_calling"
  by (simp_all add: example_codec_def table_codec_def text_done_def text_answered_def
      text_calling_def)

lemma restarted_load:
  "load_or_fresh example_codec ''17.01'' ''D1'' (restarted text_done) = thread_done"
  "load_or_fresh example_codec ''17.01'' ''D1'' (restarted text_answered) = thread_answered"
  "load_or_fresh example_codec ''17.01'' ''D1'' (restarted text_calling) = thread_calling"
  by (simp_all add: load_or_fresh_def loadThread_def restarted_def started_def example_parse)

lemma restarted_pending: "pending_of (restarted text) ''17.01'' = []"
  by (simp add: restarted_def started_def pending_of_def)

theorem loop_stops_on_final_answer_witness:
  "fst (loop_head example_codec ''17.01'' ''D1'' (restarted text_answered)) = Break
   \<and> ''17.01'' \<notin> activeThreadLoops (iterate example_codec ''17.01'' ''D1'' (restarted text_answered))
   \<and> awaiting (iterate example_codec ''17.01'' ''D1'' (restarted text_answered)) = []
   \<and> fst (loop_head example_codec ''17.01'' ''D1'' (enqueue ''17.01'' again (restarted text_answered))) =
       Generate (thread_answered\<lparr>messages := messages thread_answered @ [again]\<rparr>)"
proof -
  have m1: "messages thread_answered =
              messages (load_or_fresh example_codec ''17.01'' ''D1'' (restarted text_answered)) @
              pending_of (restarted text_answered) ''17.01''"
    by (simp add: restarted_load restarted_pending)
  have n1: "messages thread_answered \<noteq> []"
    by (simp add: thread_answered_def)
  have f1: "role (last (messages thread_answered)) = Assistant \<and>
            (\<exists>bs. content (last (messages thread_answered)) = Blocks bs \<and> tool_use_ids bs = [] \<and>
                  \<not> list_ex is_tool_result bs)"
    by (simp add: thread_answered_def)
  have a0: "awaiting (restarted text_answered) = []"
    by (simp add: restarted_def started_def)
  let ?s = "enqueue ''17.01'' again (restarted text_answered)"
  have l2: "load_or_fresh example_codec ''17.01'' ''D1'' ?s = thread_answered"
    by (simp add: load_or_fresh_def loadThread_def restarted_def started_def example_parse
        enqueue_def)
  have p2: "pending_of ?s ''17.01'' = [again]"
    by (simp add: enqueue_def pending_of_def restarted_def started_def)
  have m2: "messages thread_answered @ [again] =
              messages (load_or_fresh example_codec ''17.01'' ''D1'' ?s) @ pending_of ?s ''17.01''"
    by (simp add: l2 p2)
  have n2: "messages thread_answered @ [again] \<noteq> []" by simp
  have u2: "role (last (messages thread_answered @ [again])) = User \<or>
            (\<exists>text. content (last (messages thread_answered @ [again])) = Str text)"
    by (simp add: again_def user_message_def)
  from loop_stops_on_final_answer [OF m1 n1] f1 a0
  have stop: "fst (loop_head example_codec ''17.01'' ''D1'' (restarted text_answered)) = Break
      \<and> ''17.01'' \<notin> activeThreadLoops (iterate example_codec ''17.01'' ''D1'' (restarted text_answered))
      \<and> awaiting (iterate example_codec ''17.01'' ''D1'' (restarted text_answered)) = []"
    by simp
  from loop_stops_on_final_answer [OF m2 n2] u2
  have "fst (loop_head example_codec ''17.01'' ''D1'' ?s) =
          Generate ((load_or_fresh example_codec ''17.01'' ''D1'' ?s)
            \<lparr>messages := messages thread_answered @ [again]\<rparr>)"
    by blast
  with stop l2 show ?thesis by simp
qed

text \<open>
  C1 as stated fails on a thread loaded from disk whose last message is an assistant
  message with plain-string content and whose mailbox is empty: the specification's
  predicate holds of it (role assistant, no tool call), yet the loop does not stop; it
  starts a generation round and the thread stays in \<^verbatim>\<open>activeThreadLoops\<close>.
\<close>

theorem termination_counterexample:
  "spec_termination (messages thread_done)
   \<and> loadThread example_codec (restarted text_done) ''17.01'' = Some thread_done
   \<and> pending_of (restarted text_done) ''17.01'' = []
   \<and> fst (loop_head example_codec ''17.01'' ''D1'' (restarted text_done)) = Generate thread_done
   \<and> awaiting (runThreadLoop example_codec ''17.01'' ''D1'' (restarted text_done)) =
       [(''17.01'', ''D1'', thread_done)]
   \<and> ''17.01'' \<in> activeThreadLoops (runThreadLoop example_codec ''17.01'' ''D1'' (restarted text_done))"
proof -
  have spec: "spec_termination (messages thread_done)"
    by (simp add: spec_termination_def unanswered_tool_calls_def thread_done_def)
  have load: "loadThread example_codec (restarted text_done) ''17.01'' = Some thread_done"
    by (simp add: loadThread_def restarted_def started_def example_parse)
  have nd: "\<not> done_looping (last (messages thread_done))"
    by (simp add: done_looping_def thread_done_def)
  have ne: "messages thread_done \<noteq> []"
    by (simp add: thread_done_def)
  have head: "fst (loop_head example_codec ''17.01'' ''D1'' (restarted text_done)) = Generate thread_done"
    using nd ne by (simp add: loop_head_eq restarted_load restarted_pending)
  let ?s = "(restarted text_done)\<lparr>activeThreadLoops := insert ''17.01'' (activeThreadLoops (restarted text_done))\<rparr>"
  have l: "load_or_fresh example_codec ''17.01'' ''D1'' ?s = thread_done"
    by (simp add: load_or_fresh_def loadThread_def restarted_def started_def example_parse)
  have p: "pending_of ?s ''17.01'' = []"
    by (simp add: restarted_def started_def pending_of_def)
  have idle: "''17.01'' \<notin> activeThreadLoops (restarted text_done)"
    by (simp add: restarted_def started_def)
  have run: "runThreadLoop example_codec ''17.01'' ''D1'' (restarted text_done) =
          (snd (drain ''17.01'' ?s))\<lparr>awaiting := awaiting (snd (drain ''17.01'' ?s)) @
             [(''17.01'', ''D1'', thread_done)]\<rparr>"
    using idle nd ne by (simp add: runThreadLoop_def iterate_eq l p Let_def)
  have a: "awaiting (runThreadLoop example_codec ''17.01'' ''D1'' (restarted text_done)) =
       [(''17.01'', ''D1'', thread_done)]"
    unfolding run by (simp add: drain_def restarted_def started_def)
  have b: "''17.01'' \<in> activeThreadLoops (runThreadLoop example_codec ''17.01'' ''D1'' (restarted text_done))"
    unfolding run by (simp add: drain_def)
  from spec load restarted_pending head a b show ?thesis by simp
qed

text \<open>
  The test of the \<^verbatim>\<open>if\<close> looks for \<^verbatim>\<open>tool_result\<close> blocks, not for
  \<^verbatim>\<open>tool_use\<close> blocks: a loaded thread whose last message is an assistant message
  holding a tool call breaks the loop.
\<close>

lemma tool_use_in_last_message_breaks:
  "\<not> spec_termination (messages thread_calling)
   \<and> fst (loop_head example_codec ''17.01'' ''D1'' (restarted text_calling)) = Break"
proof -
  have "\<not> spec_termination (messages thread_calling)"
    by (simp add: spec_termination_def unanswered_tool_calls_def thread_calling_def)
  moreover have "done_looping (last (messages thread_calling))"
    by (simp add: done_looping_def thread_calling_def)
  moreover have "messages thread_calling \<noteq> []"
    by (simp add: thread_calling_def)
  ultimately show ?thesis
    by (simp add: loop_head_eq restarted_load restarted_pending)
qed



text \<open>
  C7. \<^verbatim>\<open>loadThread\<close> returns the thread the stored text parses to; it returns
  nothing exactly when there is no file or the text does not parse. In both of these
  cases the iteration works on a fresh thread with the id and the channel of the call and
  no messages: with pending messages it goes on with exactly these, it does not fail on
  the load.
\<close>

theorem load_absent_starts_fresh:
  "(loadThread cdc s ts = None \<longleftrightarrow>
      files s ts = None \<or> (\<exists>text. files s ts = Some text \<and> JSON_parse cdc text = None))
   \<and> (\<forall>t. loadThread cdc s ts = Some t \<longleftrightarrow>
          (\<exists>text. files s ts = Some text \<and> JSON_parse cdc text = Some t))
   \<and> (loadThread cdc s ts = None \<longrightarrow>
        load_or_fresh cdc ts ch s = \<lparr>threadTs = ts, channel = ch, messages = []\<rparr>
        \<and> (pending_of s ts \<noteq> [] \<longrightarrow>
             fst (loop_head cdc ts ch s) =
               (if done_looping (last (pending_of s ts)) then Break
                else Generate \<lparr>threadTs = ts, channel = ch, messages = pending_of s ts\<rparr>)))"
proof -
  have absent: "loadThread cdc s ts = None \<longleftrightarrow>
      files s ts = None \<or> (\<exists>text. files s ts = Some text \<and> JSON_parse cdc text = None)"
    by (cases "files s ts") (simp_all add: loadThread_def)
  have present: "\<forall>t. loadThread cdc s ts = Some t \<longleftrightarrow>
          (\<exists>text. files s ts = Some text \<and> JSON_parse cdc text = Some t)"
    by (cases "files s ts") (simp_all add: loadThread_def)
  have start: "loadThread cdc s ts = None \<longrightarrow>
        load_or_fresh cdc ts ch s = \<lparr>threadTs = ts, channel = ch, messages = []\<rparr>
        \<and> (pending_of s ts \<noteq> [] \<longrightarrow>
             fst (loop_head cdc ts ch s) =
               (if done_looping (last (pending_of s ts)) then Break
                else Generate \<lparr>threadTs = ts, channel = ch, messages = pending_of s ts\<rparr>))"
    by (simp add: loop_head_eq load_or_fresh_def fresh_def Let_def)
  from absent present start show ?thesis by blast
qed

theorem load_absent_starts_fresh_witness:
  "loadThread example_codec (enqueue ''17.01'' hello (started False Map.empty (0::nat))) ''17.01'' = None
   \<and> fst (loop_head example_codec ''17.01'' ''D1''
            (enqueue ''17.01'' hello (started False Map.empty (0::nat)))) =
       Generate \<lparr>threadTs = ''17.01'', channel = ''D1'', messages = [hello]\<rparr>
   \<and> loadThread example_codec (enqueue ''17.01'' hello (restarted ''{ thread 17.01: us'')) ''17.01'' = None
   \<and> fst (loop_head example_codec ''17.01'' ''D1''
            (enqueue ''17.01'' hello (restarted ''{ thread 17.01: us''))) =
       Generate \<lparr>threadTs = ''17.01'', channel = ''D1'', messages = [hello]\<rparr>
   \<and> loadThread example_codec (restarted text_answered) ''17.01'' = Some thread_answered"
proof -
  let ?a = "enqueue ''17.01'' hello (started False Map.empty (0::nat))"
  let ?b = "enqueue ''17.01'' hello (restarted ''{ thread 17.01: us'')"
  have fa: "files ?a ''17.01'' = None"
    by (simp add: enqueue_def started_def)
  have fb: "files ?b ''17.01'' = Some ''{ thread 17.01: us'' \<and>
            JSON_parse example_codec ''{ thread 17.01: us'' = None"
    by (simp add: enqueue_def restarted_def started_def example_codec_def table_codec_def
        text_done_def text_answered_def text_calling_def)
  have pa: "pending_of ?a ''17.01'' = [hello]"
    by (simp add: enqueue_def started_def pending_of_def)
  have pb: "pending_of ?b ''17.01'' = [hello]"
    by (simp add: enqueue_def restarted_def started_def pending_of_def)
  have nd: "\<not> done_looping hello"
    by (simp add: done_looping_def hello_def user_message_def)
  have fc: "files (restarted text_answered) ''17.01'' = Some text_answered \<and>
            JSON_parse example_codec text_answered = Some thread_answered"
    by (simp add: restarted_def started_def example_parse)
  from load_absent_starts_fresh [of example_codec ?a "''17.01''" "''D1''"] fa pa nd
  have a: "loadThread example_codec ?a ''17.01'' = None
     \<and> fst (loop_head example_codec ''17.01'' ''D1'' ?a) =
         Generate \<lparr>threadTs = ''17.01'', channel = ''D1'', messages = [hello]\<rparr>"
    by simp
  from load_absent_starts_fresh [of example_codec ?b "''17.01''" "''D1''"] fb pb nd
  have b: "loadThread example_codec ?b ''17.01'' = None
     \<and> fst (loop_head example_codec ''17.01'' ''D1'' ?b) =
         Generate \<lparr>threadTs = ''17.01'', channel = ''D1'', messages = [hello]\<rparr>"
    by simp
  from load_absent_starts_fresh [of example_codec "restarted text_answered" "''17.01''" "''D1''"] fc
  have c: "loadThread example_codec (restarted text_answered) ''17.01'' = Some thread_answered"
    by blast
  from a b c show ?thesis by simp
qed

text \<open>
  C9. The iteration faults exactly when the loaded sequence and the mailbox are both
  empty. When the stored thread is absent or has no messages and nothing is pending, the
  read of the last message yields \<^verbatim>\<open>undefined\<close>, the access to its role throws,
  and the loop leaves through \<^verbatim>\<open>finally\<close>.
\<close>

theorem empty_sequence_faults:
  "((\<exists>e. fst (loop_head cdc ts ch s) = Fault e) \<longleftrightarrow>
      messages (load_or_fresh cdc ts ch s) @ pending_of s ts = [])
   \<and> ((loadThread cdc s ts = None \<or> (\<exists>t. loadThread cdc s ts = Some t \<and> messages t = []))
        \<and> pending_of s ts = [] \<longrightarrow>
          lastMessage (messages (load_or_fresh cdc ts ch s) @ pending_of s ts) = None
          \<and> fst (loop_head cdc ts ch s) = Fault undefined_role
          \<and> iterate cdc ts ch s = finish ts (snd (drain ts s)))"
proof -
  have defined: "(\<exists>e. fst (loop_head cdc ts ch s) = Fault e) \<longleftrightarrow>
      messages (load_or_fresh cdc ts ch s) @ pending_of s ts = []"
    by (simp add: loop_head_eq Let_def)
  have faults: "(loadThread cdc s ts = None \<or> (\<exists>t. loadThread cdc s ts = Some t \<and> messages t = []))
        \<and> pending_of s ts = [] \<longrightarrow>
          lastMessage (messages (load_or_fresh cdc ts ch s) @ pending_of s ts) = None
          \<and> fst (loop_head cdc ts ch s) = Fault undefined_role
          \<and> iterate cdc ts ch s = finish ts (snd (drain ts s))"
  proof
    assume a: "(loadThread cdc s ts = None \<or> (\<exists>t. loadThread cdc s ts = Some t \<and> messages t = []))
        \<and> pending_of s ts = []"
    then have "messages (load_or_fresh cdc ts ch s) = []"
      by (auto simp: load_or_fresh_def fresh_def)
    with a show "lastMessage (messages (load_or_fresh cdc ts ch s) @ pending_of s ts) = None
          \<and> fst (loop_head cdc ts ch s) = Fault undefined_role
          \<and> iterate cdc ts ch s = finish ts (snd (drain ts s))"
      by (simp add: lastMessage_def loop_head_eq iterate_eq Let_def)
  qed
  from defined faults show ?thesis by blast
qed

theorem empty_sequence_faults_witness:
  "loadThread example_codec (started False Map.empty (0::nat)) ''17.01'' = None
   \<and> pending_of (started False Map.empty (0::nat)) ''17.01'' = []
   \<and> fst (loop_head example_codec ''17.01'' ''D1'' (started False Map.empty (0::nat))) =
       Fault undefined_role
   \<and> runThreadLoop example_codec ''17.01'' ''D1'' (started False Map.empty (0::nat)) =
       started False Map.empty (0::nat)"
proof -
  let ?s = "started False Map.empty (0::nat)"
  let ?act = "?s\<lparr>activeThreadLoops := insert ''17.01'' (activeThreadLoops ?s)\<rparr>"
  have l: "loadThread example_codec ?s ''17.01'' = None"
    by (simp add: loadThread_def started_def)
  have p: "pending_of ?s ''17.01'' = []"
    by (simp add: pending_of_def started_def)
  have l1: "loadThread example_codec ?act ''17.01'' = None"
    by (simp add: loadThread_def started_def)
  have p1: "pending_of ?act ''17.01'' = []"
    by (simp add: pending_of_def started_def)
  from empty_sequence_faults [of example_codec "''17.01''" "''D1''" ?s] l p
  have f: "fst (loop_head example_codec ''17.01'' ''D1'' ?s) = Fault undefined_role"
    by blast
  from empty_sequence_faults [of example_codec "''17.01''" "''D1''" ?act] l1 p1
  have "iterate example_codec ''17.01'' ''D1'' ?act = finish ''17.01'' (snd (drain ''17.01'' ?act))"
    by blast
  then have "runThreadLoop example_codec ''17.01'' ''D1'' ?s = ?s"
    by (simp add: runThreadLoop_def finish_def drain_def started_def)
  with l p f show ?thesis by simp
qed

lemma messages_while_running:
  assumes "ts \<in> activeThreadLoops s"
  shows "run rt cdc (map (Message ts ch) ms @ evs) s =
         run rt cdc evs
           (if ms = [] then s
            else s\<lparr>pendingUserMessages := (pendingUserMessages s)(ts \<mapsto> pending_of s ts @ ms)\<rparr>)"
  using assms
proof (induction ms arbitrary: s)
  case Nil
  then show ?case by simp
next
  case (Cons m ms)
  let ?s1 = "enqueue ts m s"
  have a: "ts \<in> activeThreadLoops ?s1" using Cons.prems by (simp add: enqueue_def)
  have st: "step rt cdc (Message ts ch m) s = ?s1"
    using a by (simp add: runThreadLoop_def)
  have p: "pending_of ?s1 ts = pending_of s ts @ [m]"
    by (simp add: enqueue_def pending_of_def)
  show ?case
    using Cons.IH [OF a] st p by (simp add: enqueue_def)
qed

text \<open>
  C10. A running loop is at the top of an iteration (the first one or a later one); the
  iteration drains the mailbox and goes into a generation round; messages arrive
  meanwhile; then the round throws, or the round returns and the save throws. Afterwards
  the thread is idle and its loop is gone, the files are what they were before the drain,
  and the mailbox holds exactly the messages that arrived after the drain. The drained
  messages were held by the loop alone: they are in no file and in no mailbox, and the
  next iteration would work on the stored sequence followed by the later arrivals only.
\<close>

theorem drained_messages_are_lost:
  assumes running: "ts \<in> activeThreadLoops s"
    and head: "fst (loop_head cdc ts ch s) = Generate t"
    and fails: "(\<exists>e. fst (generateMessages rt ch ts system_prompt (messages t) (world s)) = Inl e)
                \<or> (\<exists>e. d = MkdirThrows e \<or> d = WriteThrows e)"
    and after: "s' = run rt cdc
                  (map (Message ts ch) arrivals @ [Resume (length (awaiting s)) d])
                  (iterate cdc ts ch s)"
  shows "messages t = messages (load_or_fresh cdc ts ch s) @ pending_of s ts
       \<and> pending_of (iterate cdc ts ch s) ts = []
       \<and> files s' = files s
       \<and> pending_of s' ts = arrivals
       \<and> ts \<notin> activeThreadLoops s'
       \<and> awaiting s' = awaiting s
       \<and> messages (load_or_fresh cdc ts ch s') @ pending_of s' ts =
           messages (load_or_fresh cdc ts ch s) @ arrivals"
proof -
  let ?msgs = "messages (load_or_fresh cdc ts ch s) @ pending_of s ts"
  have t: "?msgs \<noteq> [] \<and> \<not> done_looping (last ?msgs) \<and>
           t = (load_or_fresh cdc ts ch s)\<lparr>messages := ?msgs\<rparr>"
    using head by (auto simp: loop_head_eq Let_def split: if_splits)
  then have mt: "messages t = ?msgs" by simp
  define s1 where "s1 = (snd (drain ts s))\<lparr>awaiting := awaiting s @ [(ts, ch, t)]\<rparr>"
  have it: "iterate cdc ts ch s = s1"
    using t by (auto simp add: iterate_eq Let_def s1_def drain_def)
  have a1: "ts \<in> activeThreadLoops s1"
    using running by (simp add: s1_def drain_def)
  have p1: "pending_of s1 ts = []"
    by (simp add: s1_def drain_def pending_of_def)
  define s2 where "s2 = (if arrivals = [] then s1
      else s1\<lparr>pendingUserMessages := (pendingUserMessages s1)(ts \<mapsto> pending_of s1 ts @ arrivals)\<rparr>)"
  have s': "s' = resume rt cdc d (length (awaiting s)) s2"
    using after it messages_while_running [OF a1, of rt cdc ch arrivals "[Resume (length (awaiting s)) d]"]
    by (simp add: s2_def)
  have aw2: "awaiting s2 = awaiting s @ [(ts, ch, t)]"
    by (simp add: s2_def s1_def)
  have w2: "world s2 = world s"
    by (simp add: s2_def s1_def drain_def)
  have f2: "files s2 = files s"
    by (simp add: s2_def s1_def drain_def)
  have p2: "pending_of s2 ts = arrivals"
    using p1 by (simp add: s2_def pending_of_def s1_def drain_def)
  let ?gone = "s2\<lparr>awaiting := awaiting s\<rparr>"
  obtain r w' where g: "generateMessages rt ch ts system_prompt (messages t) (world s) = (r, w')"
    by (cases "generateMessages rt ch ts system_prompt (messages t) (world s)")
  have res: "files s' = files s \<and> pending_of s' ts = arrivals \<and>
             ts \<notin> activeThreadLoops s' \<and> awaiting s' = awaiting s"
  proof (cases r)
    case (Inl e)
    then have "s' = finish ts (?gone\<lparr>world := w'\<rparr>)"
      using s' aw2 w2 g by (simp add: resume_def)
    then show ?thesis using f2 p2 by (simp add: finish_def pending_of_def)
  next
    case (Inr msgs)
    then have "\<exists>e. d = MkdirThrows e \<or> d = WriteThrows e"
      using fails g by simp
    then obtain e s3 where sv: "saveThread cdc d ts (t\<lparr>messages := msgs\<rparr>) (?gone\<lparr>world := w'\<rparr>) = (Inl e, s3)"
      and k: "files s3 = files s2" "pendingUserMessages s3 = pendingUserMessages s2"
        "awaiting s3 = awaiting s" "activeThreadLoops s3 = activeThreadLoops s2"
      by (auto simp: saveThread_def)
    have "s' = finish ts s3"
      using s' aw2 w2 g Inr sv by (simp add: resume_def)
    then show ?thesis using k f2 p2 by (simp add: finish_def pending_of_def)
  qed
  from res have "load_or_fresh cdc ts ch s' = load_or_fresh cdc ts ch s"
    by (simp add: load_or_fresh_def loadThread_def)
  with mt res p1 it show ?thesis by simp
qed


theorem drained_messages_are_lost_witness:
  "fst (loop_head example_codec ''17.01'' ''D1'' (enqueue ''17.01'' again (restarted text_answered))) =
     Generate (thread_answered\<lparr>messages := messages thread_answered @ [again]\<rparr>)
   \<and> files (run (scripted (Inl (Error ''529 overloaded'')) (Inr [])) example_codec
         [Trigger ''17.01'' ''D1'', Message ''17.01'' ''D1'' hello, Resume 0 Written]
         (enqueue ''17.01'' again (restarted text_answered))) = [''17.01'' \<mapsto> text_answered]
   \<and> pending_of (run (scripted (Inl (Error ''529 overloaded'')) (Inr [])) example_codec
         [Trigger ''17.01'' ''D1'', Message ''17.01'' ''D1'' hello, Resume 0 Written]
         (enqueue ''17.01'' again (restarted text_answered))) ''17.01'' = [hello]
   \<and> ''17.01'' \<notin> activeThreadLoops (run (scripted (Inl (Error ''529 overloaded'')) (Inr [])) example_codec
         [Trigger ''17.01'' ''D1'', Message ''17.01'' ''D1'' hello, Resume 0 Written]
         (enqueue ''17.01'' again (restarted text_answered)))
   \<and> files (run (scripted (Inr [Text ''Hello.'']) (Inr [])) example_codec
         [Trigger ''17.01'' ''D1'', Resume 0 (WriteThrows (Error ''ENOSPC: no space left on device''))]
         (enqueue ''17.01'' again (restarted text_answered))) = [''17.01'' \<mapsto> text_answered]
   \<and> pending_of (run (scripted (Inr [Text ''Hello.'']) (Inr [])) example_codec
         [Trigger ''17.01'' ''D1'', Resume 0 (WriteThrows (Error ''ENOSPC: no space left on device''))]
         (enqueue ''17.01'' again (restarted text_answered))) ''17.01'' = []"
proof -
  let ?idle = "enqueue ''17.01'' again (restarted text_answered)"
  let ?s = "?idle\<lparr>activeThreadLoops := insert ''17.01'' (activeThreadLoops ?idle)\<rparr>"
  let ?down = "scripted (Inl (Error ''529 overloaded'')) (Inr [])"
  let ?up = "scripted (Inr [Text ''Hello.'']) (Inr [])"
  let ?t = "thread_answered\<lparr>messages := messages thread_answered @ [again]\<rparr>"
  let ?full = "WriteThrows (Error ''ENOSPC: no space left on device'')"
  have idle: "''17.01'' \<notin> activeThreadLoops ?idle"
    by (simp add: enqueue_def restarted_def started_def)
  have running: "''17.01'' \<in> activeThreadLoops ?s"
    by simp
  have head0: "fst (loop_head example_codec ''17.01'' ''D1'' ?idle) = Generate ?t"
    by (simp add: loop_head_eq load_or_fresh_def loadThread_def restarted_def started_def
        example_parse enqueue_def pending_of_def done_looping_def again_def user_message_def)
  have head: "fst (loop_head example_codec ''17.01'' ''D1'' ?s) = Generate ?t"
    by (simp add: loop_head_eq load_or_fresh_def loadThread_def restarted_def started_def
        example_parse enqueue_def pending_of_def done_looping_def again_def user_message_def)
  have none: "awaiting ?s = []"
    by (simp add: enqueue_def restarted_def started_def)
  have stored: "files ?s = [''17.01'' \<mapsto> text_answered]"
    by (simp add: enqueue_def restarted_def started_def)
  have down: "(\<exists>e. fst (generateMessages ?down ''D1'' ''17.01'' system_prompt (messages ?t) (world ?s)) = Inl e)
              \<or> (\<exists>e. Written = MkdirThrows e \<or> Written = WriteThrows e)"
    by (simp add: generateMessages_def scripted_def)
  have full: "(\<exists>e. fst (generateMessages ?up ''D1'' ''17.01'' system_prompt (messages ?t) (world ?s)) = Inl e)
              \<or> (\<exists>e. ?full = MkdirThrows e \<or> ?full = WriteThrows e)"
    by simp
  have r1: "run ?down example_codec
              [Trigger ''17.01'' ''D1'', Message ''17.01'' ''D1'' hello, Resume 0 Written] ?idle =
            run ?down example_codec
              (map (Message ''17.01'' ''D1'') [hello] @ [Resume (length (awaiting ?s)) Written])
              (iterate example_codec ''17.01'' ''D1'' ?s)"
    using idle by (simp add: runThreadLoop_def none)
  have r2: "run ?up example_codec [Trigger ''17.01'' ''D1'', Resume 0 ?full] ?idle =
            run ?up example_codec
              (map (Message ''17.01'' ''D1'') [] @ [Resume (length (awaiting ?s)) ?full])
              (iterate example_codec ''17.01'' ''D1'' ?s)"
    using idle by (simp add: runThreadLoop_def none)
  from drained_messages_are_lost [OF running head down r1] stored
  have a: "files (run ?down example_codec
              [Trigger ''17.01'' ''D1'', Message ''17.01'' ''D1'' hello, Resume 0 Written] ?idle) =
             [''17.01'' \<mapsto> text_answered]
     \<and> pending_of (run ?down example_codec
              [Trigger ''17.01'' ''D1'', Message ''17.01'' ''D1'' hello, Resume 0 Written] ?idle) ''17.01'' = [hello]
     \<and> ''17.01'' \<notin> activeThreadLoops (run ?down example_codec
              [Trigger ''17.01'' ''D1'', Message ''17.01'' ''D1'' hello, Resume 0 Written] ?idle)"
    by simp
  from drained_messages_are_lost [OF running head full r2] stored
  have b: "files (run ?up example_codec [Trigger ''17.01'' ''D1'', Resume 0 ?full] ?idle) =
             [''17.01'' \<mapsto> text_answered]
     \<and> pending_of (run ?up example_codec [Trigger ''17.01'' ''D1'', Resume 0 ?full] ?idle) ''17.01'' = []"
    by simp
  from head0 a b show ?thesis by simp
qed

section \<open>Properties of the JSON text\<close>

lemma unhex_hex: "d < 16 \<Longrightarrow> unhex (hex d) = Some d"
proof -
  assume "d < 16"
  then have "d = 0 \<or> d = 1 \<or> d = 2 \<or> d = 3 \<or> d = 4 \<or> d = 5 \<or> d = 6 \<or> d = 7 \<or>
             d = 8 \<or> d = 9 \<or> d = 10 \<or> d = 11 \<or> d = 12 \<or> d = 13 \<or> d = 14 \<or> d = 15"
    by arith
  then show ?thesis
    by (auto simp: hex_def unhex_def)
qed

lemma parse_chars_escape_char:
  "parse_chars (escape_char c @ cs) = map_option (\<lambda>(s, r). (c # s, r)) (parse_chars cs)"
proof -
  consider (named) "c \<in> {CHR 0x22, CHR 0x5C, CHR 0x08, CHR 0x0C, CHR 0x0A, CHR 0x0D, CHR 0x09}"
    | (control) "c \<notin> {CHR 0x22, CHR 0x5C, CHR 0x08, CHR 0x0C, CHR 0x0A, CHR 0x0D, CHR 0x09}"
        "(of_char c :: nat) < 32"
    | (plain) "c \<notin> {CHR 0x22, CHR 0x5C, CHR 0x08, CHR 0x0C, CHR 0x0A, CHR 0x0D, CHR 0x09}"
        "\<not> (of_char c :: nat) < 32"
    by blast
  then show ?thesis
  proof cases
    case named
    then show ?thesis
      by (auto simp: escape_char_def unescape_def)
  next
    case control
    let ?n = "of_char c :: nat"
    have hi: "unhex (hex (?n div 16)) = Some (?n div 16)"
      using control(2) by (intro unhex_hex) simp
    have lo: "unhex (hex (?n mod 16)) = Some (?n mod 16)"
      by (intro unhex_hex) simp
    have zero: "unhex (CHR ''0'') = Some 0"
      by (simp add: unhex_def)
    have same: "char_of (16 * (?n div 16) + ?n mod 16) = c"
      by simp
    show ?thesis
      using control(1) by (simp add: escape_char_def control(2) hi lo zero same)
  next
    case plain
    then show ?thesis
      by (simp add: escape_char_def)
  qed
qed

lemma parse_chars_quote:
  "parse_chars (concat (map escape_char s) @ CHR 0x22 # rest) = Some (s, rest)"
  by (induction s) (simp_all add: parse_chars_escape_char)

lemma digit_cases:
  "d < 10 \<Longrightarrow> d = 0 \<or> d = 1 \<or> d = 2 \<or> d = 3 \<or> d = 4 \<or> d = 5 \<or> d = 6 \<or> d = 7 \<or>
            d = 8 \<or> d = (9::nat)"
  by arith

lemma digit_props: "d < 10 \<Longrightarrow> is_digit (digit d) \<and> digit_val (digit d) = d \<and> digit d \<noteq> CHR ''-''"
  using digit_cases [of d] by (auto simp: is_digit_def digit_def digit_val_def)

lemma digit_zero: "d < 10 \<Longrightarrow> digit d = CHR ''0'' \<longleftrightarrow> d = 0"
  using digit_cases [of d] by (auto simp: digit_def)

lemma digits_all: "list_all is_digit (digits n)"
  by (induction n rule: digits.induct) (subst digits.simps, simp add: digit_props)

lemma digits_nonempty: "digits n \<noteq> []"
  by (subst digits.simps) simp

lemma number_of_snoc: "number_of (ds @ [c]) = 10 * number_of ds + digit_val c"
  by (simp add: number_of_def)

lemma number_of_digits: "number_of (digits n) = n"
proof (induction n rule: digits.induct)
  case (1 n)
  show ?case
  proof (cases "n < 10")
    case True
    then show ?thesis by (subst digits.simps) (simp add: number_of_def digit_props)
  next
    case False
    then have "number_of (digits n) = 10 * number_of (digits (n div 10)) + digit_val (digit (n mod 10))"
      by (subst digits.simps) (simp add: number_of_snoc)
    then show ?thesis using 1 False by (simp add: digit_props)
  qed
qed

lemma hd_digits_zero: "hd (digits n) = CHR ''0'' \<Longrightarrow> n = 0"
proof (induction n rule: digits.induct)
  case (1 n)
  show ?case
  proof (cases "n < 10")
    case True
    then have "digits n = [digit n]" by (subst digits.simps) simp
    then show ?thesis using True "1.prems" by (simp add: digit_zero)
  next
    case False
    then have "hd (digits n) = hd (digits (n div 10))"
      by (subst digits.simps) (simp add: digits_nonempty)
    then have "n div 10 = 0" using 1 False by simp
    then show ?thesis using False by simp
  qed
qed

lemma digits_zero: "digits 0 = [CHR ''0'']"
  by (subst digits.simps) (simp add: digit_def)

lemma hd_digits: "is_digit (hd (digits n))"
  using digits_all [of n] digits_nonempty [of n] by (cases "digits n") simp_all

lemma takeWhile_digits:
  assumes "ends_value rest"
  shows "takeWhile is_digit (digits n @ rest) = digits n"
    and "dropWhile is_digit (digits n @ rest) = rest"
proof -
  have all: "\<forall>c\<in>set (digits n). is_digit c"
    using digits_all [of n] by (simp add: list_all_iff)
  have stop: "rest = [] \<or> \<not> is_digit (hd rest)"
    using assms by (auto simp: ends_value_def)
  show "takeWhile is_digit (digits n @ rest) = digits n"
    using all stop by (cases rest) (simp_all add: takeWhile_append2)
  show "dropWhile is_digit (digits n @ rest) = rest"
    using all stop by (cases rest) (simp_all add: dropWhile_append2)
qed

lemma parse_number_show_int:
  assumes "ends_value rest"
  shows "parse_number (show_int i @ rest) = Some (JNum i, rest)"
proof -
  have lead: "\<not> (hd (digits n) = CHR ''0'' \<and> 1 < length (digits n))" for n
  proof
    assume a: "hd (digits n) = CHR ''0'' \<and> 1 < length (digits n)"
    then have "n = 0" by (simp add: hd_digits_zero)
    with a show False by (simp add: digits_zero)
  qed
  have stop: "\<not> (rest \<noteq> [] \<and> hd rest \<in> {CHR ''.'', CHR ''e'', CHR ''E''})"
    using assms by (auto simp: ends_value_def)
  have not_minus: "hd (digits n) \<noteq> CHR ''-''" for n
    using hd_digits [of n] by (auto simp: is_digit_def)
  show ?thesis
  proof (cases "i < 0")
    case True
    then show ?thesis
      using lead [of "nat (- i)"] stop
      by (simp add: parse_number_def show_int_def takeWhile_digits [OF assms]
          digits_nonempty number_of_digits Let_def)
  next
    case False
    have "digits (nat i) @ rest \<noteq> [] \<and> hd (digits (nat i) @ rest) \<noteq> CHR ''-''"
      using not_minus [of "nat i"] digits_nonempty [of "nat i"] by simp
    then show ?thesis
      using False lead [of "nat i"] stop
      by (simp add: parse_number_def show_int_def takeWhile_digits [OF assms]
          digits_nonempty number_of_digits Let_def)
  qed
qed

lemma value_start_not:
  "value_start c \<Longrightarrow> \<not> is_ws c \<and> c \<noteq> CHR '']'' \<and> c \<noteq> CHR ''}''"
  by (auto simp: value_start_def is_ws_def is_digit_def)

lemma skip_ws_ws: "list_all is_ws ws \<Longrightarrow> skip_ws (ws @ cs) = skip_ws cs"
  by (induction ws) (simp_all add: skip_ws_def)

lemma skip_ws_start: "\<not> is_ws c \<Longrightarrow> skip_ws (c # cs) = c # cs"
  by (simp add: skip_ws_def)

lemma indent_ws: "list_all is_ws (indent n)"
  by (simp add: indent_def list_all_iff is_ws_def)

lemma newline_ws: "list_all is_ws newline"
  by (simp add: newline_def is_ws_def)

lemma parse_value_ws: "list_all is_ws ws \<Longrightarrow> parse_value f (ws @ cs) = parse_value f cs"
  by (cases f) (simp_all add: skip_ws_ws)

lemma parse_items_ws: "list_all is_ws ws \<Longrightarrow> parse_items f (ws @ cs) = parse_items f cs"
  by (cases f) (simp_all add: parse_value_ws)

lemma parse_members_ws: "list_all is_ws ws \<Longrightarrow> parse_members f (ws @ cs) = parse_members f cs"
  by (cases f) (simp_all add: skip_ws_ws)

lemma show_int_start: "\<exists>c cs. show_int i = c # cs \<and> (c = CHR ''-'' \<or> is_digit c)"
proof (cases "i < 0")
  case True
  then show ?thesis by (simp add: show_int_def)
next
  case False
  obtain c cs where d: "digits (nat i) = c # cs"
    using digits_nonempty [of "nat i"] by (cases "digits (nat i)") auto
  then have "is_digit c" using hd_digits [of "nat i"] by simp
  then show ?thesis using False d by (simp add: show_int_def)
qed

lemma stringify_start: "\<exists>c cs. stringify n v = c # cs \<and> value_start c"
proof (cases v)
  case (JNum i)
  then show ?thesis using show_int_start [of i] by (auto simp: value_start_def)
qed (auto simp: value_start_def quote_def)

lemma ends_value_simps:
  "ends_value []"
  "ends_value (CHR '','' # cs)"
  "ends_value (CHR '']'' # cs)"
  "ends_value (CHR ''}'' # cs)"
  "ends_value (CHR 0x0A # cs)"
  "ends_value (CHR 0x20 # cs)"
  by (simp_all add: ends_value_def is_digit_def)

lemma ends_value_ws:
  assumes "list_all is_ws ws" "ends_value cs"
  shows "ends_value (ws @ cs)"
  using assms by (cases ws) (auto simp: ends_value_def is_ws_def is_digit_def)

lemma parse_value_atom:
  assumes "value_start c" "c \<noteq> CHR 0x22" "c \<noteq> CHR ''[''" "c \<noteq> CHR ''{''"
    "c \<noteq> CHR ''t''" "c \<noteq> CHR ''f''" "c \<noteq> CHR ''n''"
  shows "parse_value (Suc f) (c # cs) = parse_number (c # cs)"
  using assms value_start_not [of c] by (simp add: skip_ws_start)

lemma parse_value_number:
  assumes "ends_value rest"
  shows "parse_value (Suc f) (show_int i @ rest) = Some (JNum i, rest)"
proof -
  obtain c cs where s: "show_int i = c # cs" and c: "c = CHR ''-'' \<or> is_digit c"
    using show_int_start [of i] by blast
  have "parse_value (Suc f) (c # cs @ rest) = parse_number (c # cs @ rest)"
    using c by (intro parse_value_atom) (auto simp: value_start_def is_digit_def)
  then show ?thesis
    using s parse_number_show_int [OF assms, of i] by simp
qed

lemma parse_value_string:
  "parse_value (Suc f) (quote s @ rest) = Some (JStr s, rest)"
  by (simp add: quote_def skip_ws_start is_ws_def parse_chars_quote)

lemma items_first:
  assumes "vs \<noteq> []"
  shows "\<exists>c cs. skip_ws (stringify_items n vs @ rest) = c # cs \<and> c \<noteq> CHR '']''"
proof -
  obtain v vs' where vs: "vs = v # vs'" using assms by (cases vs) auto
  obtain c cs where st: "stringify n v = c # cs" and c: "value_start c"
    using stringify_start [of n v] by blast
  have "skip_ws (stringify_items n vs @ rest) =
        skip_ws (c # cs @ (if vs' = [] then [] else '','' @ newline @ stringify_items n vs') @ rest)"
    using vs st by (simp add: skip_ws_ws indent_ws)
  then show ?thesis using c value_start_not [of c] by (simp add: skip_ws_start)
qed

lemma members_first:
  assumes "kvs \<noteq> []"
  shows "\<exists>cs. skip_ws (stringify_members n kvs @ rest) = CHR 0x22 # cs"
proof -
  obtain k v kvs' where kvs: "kvs = (k, v) # kvs'" using assms by (cases kvs) auto
  show ?thesis
    using kvs by (simp add: skip_ws_ws indent_ws quote_def skip_ws_start is_ws_def)
qed

lemma parse_stringify_all:
  "(\<forall>f rest. length (stringify n v) \<le> f \<longrightarrow> ends_value rest \<longrightarrow>
        parse_value f (stringify n v @ rest) = Some (v, rest))"
  "(vs \<noteq> [] \<longrightarrow> (\<forall>f ws rest. length (stringify_items n vs) < f \<longrightarrow> list_all is_ws ws \<longrightarrow>
        parse_items f (stringify_items n vs @ ws @ CHR '']'' # rest) = Some (vs, rest)))"
  "(kvs \<noteq> [] \<longrightarrow> (\<forall>f ws rest. length (stringify_members n kvs) < f \<longrightarrow> list_all is_ws ws \<longrightarrow>
        parse_members f (stringify_members n kvs @ ws @ CHR ''}'' # rest) = Some (kvs, rest)))"
proof (induction n v and n vs and n kvs rule: stringify_stringify_items_stringify_members.induct)
  case (1 n)
  show ?case
  proof (intro allI impI)
    fix f rest assume "length (stringify n JNull) \<le> f"
    then obtain f' where "f = Suc f'" by (cases f) auto
    then show "parse_value f (stringify n JNull @ rest) = Some (JNull, rest)"
      by (simp add: skip_ws_start is_ws_def)
  qed
next
  case (2 n b)
  show ?case
  proof (intro allI impI)
    fix f rest assume "length (stringify n (JBool b)) \<le> f"
    then obtain f' where "f = Suc f'" by (cases f) (auto split: if_splits)
    then show "parse_value f (stringify n (JBool b) @ rest) = Some (JBool b, rest)"
      by (simp add: skip_ws_start is_ws_def)
  qed
next
  case (3 n i)
  show ?case
  proof (intro allI impI)
    fix f rest assume len: "length (stringify n (JNum i)) \<le> f" and e: "ends_value rest"
    have "show_int i \<noteq> []" using show_int_start [of i] by auto
    then obtain f' where "f = Suc f'" using len by (cases f) auto
    then show "parse_value f (stringify n (JNum i) @ rest) = Some (JNum i, rest)"
      using parse_value_number [OF e] by simp
  qed
next
  case (4 n s)
  show ?case
  proof (intro allI impI)
    fix f rest assume "length (stringify n (JStr s)) \<le> f"
    then obtain f' where "f = Suc f'" by (cases f) (auto simp: quote_def)
    then show "parse_value f (stringify n (JStr s) @ rest) = Some (JStr s, rest)"
      using parse_value_string by simp
  qed
next
  case (5 n vs)
  show ?case
  proof (intro allI impI)
    fix f rest assume len: "length (stringify n (JArr vs)) \<le> f"
    show "parse_value f (stringify n (JArr vs) @ rest) = Some (JArr vs, rest)"
    proof (cases "vs = []")
      case True
      then obtain f' where "f = Suc f'" using len by (cases f) auto
      then show ?thesis using True by (simp add: skip_ws_start is_ws_def)
    next
      case False
      let ?items = "stringify_items (Suc n) vs"
      let ?tail = "(newline @ indent n) @ CHR '']'' # rest"
      obtain f' where f: "f = Suc f'" and f': "length ?items < f'"
        using len False by (cases f) (auto simp: newline_def)
      obtain c cs where first: "skip_ws (?items @ ?tail) = c # cs" and c: "c \<noteq> CHR '']''"
        using items_first [OF False] by blast
      have ws: "list_all is_ws (newline @ indent n)"
        using newline_ws indent_ws by simp
      have items: "parse_items f' (?items @ ?tail) = Some (vs, rest)"
        using "5.IH" False f' ws by blast
      have shape: "stringify n (JArr vs) @ rest = CHR ''['' # newline @ ?items @ ?tail"
        using False by simp
      have "parse_value (Suc f') (CHR ''['' # newline @ ?items @ ?tail) = Some (JArr vs, rest)"
        using first c items
        by (simp add: skip_ws_start is_ws_def skip_ws_ws newline_ws parse_items_ws)
      then show ?thesis using f shape by simp
    qed
  qed
next
  case (6 n kvs)
  show ?case
  proof (intro allI impI)
    fix f rest assume len: "length (stringify n (JObj kvs)) \<le> f"
    show "parse_value f (stringify n (JObj kvs) @ rest) = Some (JObj kvs, rest)"
    proof (cases "kvs = []")
      case True
      then obtain f' where "f = Suc f'" using len by (cases f) auto
      then show ?thesis using True by (simp add: skip_ws_start is_ws_def)
    next
      case False
      let ?members = "stringify_members (Suc n) kvs"
      let ?tail = "(newline @ indent n) @ CHR ''}'' # rest"
      obtain f' where f: "f = Suc f'" and f': "length ?members < f'"
        using len False by (cases f) (auto simp: newline_def)
      obtain cs where first: "skip_ws (?members @ ?tail) = CHR 0x22 # cs"
        using members_first [OF False] by blast
      have ws: "list_all is_ws (newline @ indent n)"
        using newline_ws indent_ws by simp
      have members: "parse_members f' (?members @ ?tail) = Some (kvs, rest)"
        using "6.IH" False f' ws by blast
      have shape: "stringify n (JObj kvs) @ rest = CHR ''{'' # newline @ ?members @ ?tail"
        using False by simp
      have "parse_value (Suc f') (CHR ''{'' # newline @ ?members @ ?tail) = Some (JObj kvs, rest)"
        using first members
        by (simp add: skip_ws_start is_ws_def skip_ws_ws newline_ws parse_members_ws)
      then show ?thesis using f shape by simp
    qed
  qed
next
  case (7 n)
  show ?case by simp
next
  case (8 n v vs)
  show ?case
  proof (intro allI impI)
    fix f ws rest
    assume len: "length (stringify_items n (v # vs)) < f" and ws: "list_all is_ws ws"
    obtain f' where f: "f = Suc f'" using len by (cases f) auto
    have lv: "length (stringify n v) \<le> f'" using len f by simp
    show "parse_items f (stringify_items n (v # vs) @ ws @ CHR '']'' # rest) = Some (v # vs, rest)"
    proof (cases "vs = []")
      case True
      let ?after = "ws @ CHR '']'' # rest"
      have e: "ends_value ?after"
        using ws by (intro ends_value_ws) (simp_all add: ends_value_simps)
      have "parse_value f' (stringify n v @ ?after) = Some (v, ?after)"
        using "8.IH"(1) lv e by blast
      then have "parse_items (Suc f') (indent n @ stringify n v @ ?after) = Some ([v], rest)"
        using ws by (simp add: parse_value_ws indent_ws skip_ws_ws skip_ws_start is_ws_def)
      then show ?thesis using True f by simp
    next
      case False
      let ?more = "stringify_items n vs @ ws @ CHR '']'' # rest"
      let ?after = "CHR '','' # newline @ ?more"
      have e: "ends_value ?after" by (simp add: ends_value_simps)
      have v: "parse_value f' (stringify n v @ ?after) = Some (v, ?after)"
        using "8.IH"(1) lv e by blast
      have lvs: "length (stringify_items n vs) < f'" using len f False by simp
      have vs: "parse_items f' ?more = Some (vs, rest)"
        using "8.IH"(2) False lvs ws by blast
      have "parse_items (Suc f') (indent n @ stringify n v @ ?after) = Some (v # vs, rest)"
        using v vs
        by (simp add: parse_value_ws indent_ws skip_ws_start is_ws_def parse_items_ws newline_ws)
      then show ?thesis using False f by simp
    qed
  qed
next
  case (9 n)
  show ?case by simp
next
  case (10 n k v kvs)
  show ?case
  proof (intro allI impI)
    fix f ws rest
    assume len: "length (stringify_members n ((k, v) # kvs)) < f" and ws: "list_all is_ws ws"
    obtain f' where f: "f = Suc f'" using len by (cases f) auto
    have lv: "length (stringify n v) \<le> f'" using len f by simp
    have key: "skip_ws (indent n @ quote k @ CHR '':'' # CHR 0x20 # X) =
                 CHR 0x22 # concat (map escape_char k) @ CHR 0x22 # CHR '':'' # CHR 0x20 # X" for X
      by (simp add: skip_ws_ws indent_ws quote_def skip_ws_start is_ws_def)
    have sp: "parse_value f' (CHR 0x20 # X) = parse_value f' X" for X
      using parse_value_ws [of "[CHR 0x20]" f' X] by (simp add: is_ws_def)
    show "parse_members f (stringify_members n ((k, v) # kvs) @ ws @ CHR ''}'' # rest) =
            Some ((k, v) # kvs, rest)"
    proof (cases "kvs = []")
      case True
      let ?after = "ws @ CHR ''}'' # rest"
      have e: "ends_value ?after"
        using ws by (intro ends_value_ws) (simp_all add: ends_value_simps)
      have v: "parse_value f' (stringify n v @ ?after) = Some (v, ?after)"
        using "10.IH"(1) lv e by blast
      have "parse_members (Suc f') (indent n @ quote k @ CHR '':'' # CHR 0x20 # stringify n v @ ?after) =
              Some ([(k, v)], rest)"
        using v ws
        by (simp add: key parse_chars_quote skip_ws_start is_ws_def sp skip_ws_ws)
      then show ?thesis using True f by simp
    next
      case False
      let ?more = "stringify_members n kvs @ ws @ CHR ''}'' # rest"
      let ?after = "CHR '','' # newline @ ?more"
      have e: "ends_value ?after" by (simp add: ends_value_simps)
      have v: "parse_value f' (stringify n v @ ?after) = Some (v, ?after)"
        using "10.IH"(1) lv e by blast
      have lk: "length (stringify_members n kvs) < f'" using len f False by simp
      have kvs: "parse_members f' ?more = Some (kvs, rest)"
        using "10.IH"(2) False lk ws by blast
      have "parse_members (Suc f') (indent n @ quote k @ CHR '':'' # CHR 0x20 # stringify n v @ ?after) =
              Some ((k, v) # kvs, rest)"
        using v kvs
        by (simp add: key parse_chars_quote skip_ws_start is_ws_def sp parse_members_ws newline_ws)
      then show ?thesis using False f by simp
    qed
  qed
qed

lemma parse_stringify: "parse (stringify 0 v) = Some v"
proof -
  have "length (stringify 0 v) \<le> Suc (2 * length (stringify 0 v))" by simp
  then have "parse_value (Suc (2 * length (stringify 0 v))) (stringify 0 v @ []) = Some (v, [])"
    using parse_stringify_all(1) [of 0 v] ends_value_simps(1) by blast
  then have "parse_value (Suc (2 * length (stringify 0 v))) (stringify 0 v) = Some (v, [])"
    by simp
  then show ?thesis by (simp add: parse_def skip_ws_def del: parse_value.simps)
qed

text \<open>
  Reading a thread's object back gives the thread, so the codec reads back what it wrote;
  and for any codec, a load after a save returns what the codec reads from what it wrote.
\<close>

lemma those_map:
  assumes "\<And>x. g (f x) = Some x"
  shows "those (map (g \<circ> f) xs) = Some xs"
  by (induction xs) (simp_all add: assms)

lemma block_of_block_json: "block_of_json (block_json b) = Some b"
proof (cases b)
  case (ToolResult i c e)
  then show ?thesis by (cases e) (simp_all add: get_string_def)
qed (simp_all add: get_string_def)

lemma message_of_message_json: "message_of_json (message_json m) = Some m"
proof -
  have r: "role_of_json (Some (role_json (role m))) = Some (role m)"
    by (cases "role m") simp_all
  have c: "content_of_json (Some (content_json (content m))) = Some (content m)"
    by (cases "content m") (simp_all add: those_map block_of_block_json)
  show ?thesis by (simp add: message_json_def r c)
qed

lemma thread_of_thread_json: "thread_of_json (thread_json t) = Some t"
  by (simp add: thread_json_def get_string_def those_map message_of_message_json)

lemma json_codec_reads_back:
  "JSON_parse json_codec (JSON_stringify json_codec t) = Some t"
  by (simp add: json_codec_def parse_stringify thread_of_thread_json)

lemma load_after_save:
  "loadThread cdc (snd (saveThread cdc Written ts t s)) ts =
     JSON_parse cdc (JSON_stringify cdc t)"
  by (simp add: saveThread_def loadThread_def)

text \<open>The text of a fresh thread, and a text in another layout read as a thread.\<close>

lemma stringify_fresh:
  \<open>JSON_stringify json_codec (fresh ''17.01'' ''D1'') =
     ''{\<newline>  "threadTs": "17.01",\<newline>  "channel": "D1",\<newline>  "messages": []\<newline>}''\<close>
  by code_simp

lemma parse_compact:
  \<open>JSON_parse json_codec
     (''{"threadTs":"17.01","messages":[{"content":"a'' @ [CHR 0x5C] @
      ''u000ab","role":"user"}],"channel":"D1"}'') =
     Some \<lparr>threadTs = ''17.01'', channel = ''D1'',
           messages = [\<lparr>role = User, content = Str (''a'' @ newline @ ''b'')\<rparr>]\<rparr>\<close>
  by code_simp

text \<open>
  C8. With the runtime's JSON, for every thread (its messages plain strings or arrays of
  \<^verbatim>\<open>text\<close>, \<^verbatim>\<open>tool_use\<close> and \<^verbatim>\<open>tool_result\<close> blocks): a save that the disk
  carries out followed by a load of the same id returns that thread, equal in the role and
  the content of every message, in their order, and in every field of every block. The
  save leaves the directory in place, and the file holds the text of the saved thread
  whatever it held before: saving over an earlier save gives the same state as saving
  once.
\<close>

theorem save_then_load:
  assumes "saveThread json_codec Written ts t s = (r, s')"
  shows "r = Inr ()
       \<and> loadThread json_codec s' ts = Some t
       \<and> threadsDir s'
       \<and> files s' = (files s)(ts \<mapsto> stringify 0 (thread_json t))
       \<and> (\<forall>t0. snd (saveThread json_codec Written ts t
                     (snd (saveThread json_codec Written ts t0 s))) = s')"
proof -
  have s': "s' = snd (saveThread json_codec Written ts t s)" and r: "r = Inr ()"
    using assms by (simp_all add: saveThread_def)
  have load: "loadThread json_codec s' ts = Some t"
    unfolding s' by (simp add: load_after_save json_codec_reads_back)
  have dir: "threadsDir s'"
    by (simp add: s' saveThread_def)
  have stored: "files s' = (files s)(ts \<mapsto> stringify 0 (thread_json t))"
    by (simp add: s' saveThread_def json_codec_def)
  have replace: "\<forall>t0. snd (saveThread json_codec Written ts t
                     (snd (saveThread json_codec Written ts t0 s))) = s'"
    by (simp add: s' saveThread_def)
  from r load dir stored replace show ?thesis by blast
qed

theorem save_then_load_witness:
  "loadThread json_codec
     (snd (saveThread json_codec Written ''17.01'' thread_small (restarted text_answered)))
     ''17.01'' = Some thread_small
   \<and> files (snd (saveThread json_codec Written ''17.01'' thread_small (restarted text_answered)))
       ''17.01'' = Some (stringify 0 (thread_json thread_small))
   \<and> content (messages thread_small ! 1) =
       Blocks [Text ''ok'', ToolUse ''t1'' ''read_file'' [(''path'', JStr ''/x'')]]
   \<and> content (messages thread_small ! 2) =
       Blocks [ToolResult ''t1'' ''Error: no'' (Some True)]"
proof -
  have sv: "saveThread json_codec Written ''17.01'' thread_small (restarted text_answered) =
          (fst (saveThread json_codec Written ''17.01'' thread_small (restarted text_answered)),
           snd (saveThread json_codec Written ''17.01'' thread_small (restarted text_answered)))"
    by simp
  from save_then_load [OF sv] show ?thesis
    by (simp add: thread_small_def)
qed

end
